theory Spec2Isabelle
  imports Main "HOL-Library.Word"
begin

section \<open>Data model (graph\_node.py, stance.py)\<close>

text \<open>
  The two enumerations of the source.  Both have a member called \<open>OTHER\<close>; the
  constructors carry the name of their class to keep them apart.
\<close>

datatype GraphNodeCategory = Category_Z | Category_NZ | Category_FAQ | Category_OTHER

datatype Stance = Stance_PRO | Stance_CON | Stance_OTHER

text \<open>
  Node objects live in a store; a reference to a node is its address.  A Python
  \<open>Set[Text]\<close> is a duplicate-free list of strings and a \<open>Set[GraphNode]\<close> is a list of
  addresses, read in the order in which the set is iterated.  Python leaves that order
  open; the model takes the order of insertion, and \<open>next(iter(s))\<close> is the head of the
  list.  \<open>hash(str)\<close> is a built-in the repository does not define: every definition
  that hashes takes it as the parameter \<open>h\<close>, a function from strings to the 64-bit
  values of \<open>Py_hash_t\<close>.
\<close>

type_synonym addr = nat

type_synonym py_hash = "64 word"

datatype error = StopIteration | AssertionError | RecursionError

record GraphNode =
  label :: string
  full_text :: string
  parents :: "string list"
  label_name :: string
  paraphrase :: string
  summary :: string
  groups :: "string list"
  rating :: int
  reaction_to_argument :: int
  category :: GraphNodeCategory
  stance :: Stance
  samples :: "string list"
  similars :: "string list"
  child_nodes :: "addr list"
  parent_nodes :: "addr list"
  similar_nodes :: "addr list"
  group_nodes :: "addr list"
  group_member_nodes :: "addr list"

subsection \<open>Construction of a node\<close>

text \<open>\<open>str.strip()\<close>, on the ASCII characters for which \<open>str.isspace\<close> holds.\<close>

definition is_space :: "char \<Rightarrow> bool" where
  "is_space c = (c \<in> set [CHR '' '', CHR 0x09, CHR 0x0A, CHR 0x0B, CHR 0x0C, CHR 0x0D,
                           CHR 0x1C, CHR 0x1D, CHR 0x1E, CHR 0x1F])"

definition strip :: "string \<Rightarrow> string" where
  "strip s = rev (dropWhile is_space (rev (dropWhile is_space s)))"

text \<open>\<open>set.discard\<close> on a set of strings.\<close>

definition discard :: "string \<Rightarrow> string list \<Rightarrow> string list" where
  "discard x xs = filter (\<lambda>y. y \<noteq> x) xs"

definition cleanup_attributes :: "GraphNode \<Rightarrow> GraphNode" where
  "cleanup_attributes n =
     (let n1 = n\<lparr>label := strip (label n)\<rparr>;
          n2 = n1\<lparr>parents := remdups (map strip (parents n1))\<rparr>;
          n3 = n2\<lparr>groups := remdups (map strip (groups n2))\<rparr>;
          n4 = n3\<lparr>label_name := strip (label_name n3)\<rparr>
      in if label_name n4 = [] then n4\<lparr>label_name := label n4\<rparr> else n4)"

text \<open>The two warnings are printed and change nothing; the model leaves them out.\<close>

definition match_constraints :: "GraphNode \<Rightarrow> GraphNode" where
  "match_constraints n =
     (let n1 = (if label n \<in> set (groups n) then n\<lparr>groups := discard (label n) (groups n)\<rparr> else n)
      in if label n1 \<in> set (parents n1) then n1\<lparr>parents := discard (label n1) (parents n1)\<rparr> else n1)"

definition post_init :: "GraphNode \<Rightarrow> GraphNode" where
  "post_init n = match_constraints (cleanup_attributes n)"

text \<open>
  The generated \<open>__init__\<close> of the dataclass: the thirteen init fields are stored as
  given, the five link sets (\<open>init=False\<close>, \<open>default_factory=set\<close>) start empty whatever
  the argument record holds for them, and \<open>__post_init__\<close> runs.
\<close>

definition no_links :: "GraphNode \<Rightarrow> GraphNode" where
  "no_links r = r\<lparr>child_nodes := [], parent_nodes := [], similar_nodes := [],
                  group_nodes := [], group_member_nodes := []\<rparr>"

definition new_GraphNode :: "GraphNode \<Rightarrow> GraphNode" where
  "new_GraphNode r = post_init (no_links r)"

text \<open>
  The argument record of a call \<open>GraphNode(label=l, full_text=t, parents=ps, groups=gs,
  similars=ss)\<close>: the other fields take the defaults the dataclass declares.
\<close>

definition node_args :: "string \<Rightarrow> string \<Rightarrow> string list \<Rightarrow> string list \<Rightarrow> string list \<Rightarrow> GraphNode" where
  "node_args l t ps gs ss =
     \<lparr>label = l, full_text = t, parents = ps, label_name = [], paraphrase = [], summary = [],
      groups = gs, rating = - 1, reaction_to_argument = - 1, category = Category_OTHER,
      stance = Stance_OTHER, samples = [], similars = ss, child_nodes = [], parent_nodes = [],
      similar_nodes = [], group_nodes = [], group_member_nodes = []\<rparr>"

subsection \<open>Label properties\<close>

definition has_parent_labels :: "GraphNode \<Rightarrow> bool" where
  "has_parent_labels n = (length (parents n) > 0)"

definition has_group_labels :: "GraphNode \<Rightarrow> bool" where
  "has_group_labels n = (length (groups n) > 0)"

subsection \<open>\<open>as_tuple\<close>\<close>

text \<open>\<open>next(iter(self.groups))\<close> raises \<open>StopIteration\<close> on the empty set.\<close>

definition next_iter :: "'a list \<Rightarrow> error + 'a" where
  "next_iter xs = (case xs of [] \<Rightarrow> Inl StopIteration | x # _ \<Rightarrow> Inr x)"

definition as_tuple :: "GraphNode \<Rightarrow> error + (string \<times> string \<times> string \<times> string \<times> int \<times> string)" where
  "as_tuple n =
     (case next_iter (groups n) of
        Inl e \<Rightarrow> Inl e
      | Inr g \<Rightarrow> Inr (label n, summary n, paraphrase n, full_text n, rating n, g))"

subsection \<open>Hashing and equality\<close>

text \<open>
  \<open>__hash__\<close> returns \<open>hash(self.label)\<close>; its other branch needs an object without a
  \<open>label\<close> attribute, which the dataclass never builds.  \<open>__eq__\<close> compares the two
  hashes; its argument is a \<open>GraphNode\<close> by the type of the model.
\<close>

definition GraphNode_hash :: "(string \<Rightarrow> py_hash) \<Rightarrow> GraphNode \<Rightarrow> py_hash" where
  "GraphNode_hash h n = h (label n)"

definition GraphNode_eq :: "(string \<Rightarrow> py_hash) \<Rightarrow> GraphNode \<Rightarrow> GraphNode \<Rightarrow> bool" where
  "GraphNode_eq h a b = (GraphNode_hash h a = GraphNode_hash h b)"

section \<open>Sets of nodes\<close>

text \<open>
  A Python set finds an element by its hash and then by \<open>is\<close> or \<open>==\<close>.  For nodes both
  come down to the hash of the label, so a set of nodes holds at most one node of each
  key; \<open>add\<close> keeps the element already stored.  The key of an address is read from the
  node stored there.
\<close>

definition node_key :: "(string \<Rightarrow> py_hash) \<Rightarrow> (addr \<Rightarrow> GraphNode) \<Rightarrow> addr \<Rightarrow> py_hash" where
  "node_key h hp a = GraphNode_hash h (hp a)"

definition set_contains :: "(addr \<Rightarrow> py_hash) \<Rightarrow> addr list \<Rightarrow> addr \<Rightarrow> bool" where
  "set_contains k S x = (\<exists>y \<in> set S. k y = k x)"

definition set_add :: "(addr \<Rightarrow> py_hash) \<Rightarrow> addr \<Rightarrow> addr list \<Rightarrow> addr list" where
  "set_add k x S = (if set_contains k S x then S else S @ [x])"

definition set_update :: "(addr \<Rightarrow> py_hash) \<Rightarrow> addr list \<Rightarrow> addr list \<Rightarrow> addr list" where
  "set_update k xs S = fold (set_add k) xs S"

section \<open>The graph collection (argument\_graph.py)\<close>

text \<open>
  The six partitions are lists of references.  The field \<open>group_nodes\<close> of the source is
  \<open>graph_group_nodes\<close> here, since a node has a field of that name too.  \<open>heap\<close> is the
  store of the node objects.
\<close>

record ArgumentGraph =
  introduction_nodes :: "addr list"
  transition_nodes :: "addr list"
  z_arguments_nodes :: "addr list"
  graph_group_nodes :: "addr list"
  nz_arguments_nodes :: "addr list"
  faq_nodes :: "addr list"
  label_to_node :: "string \<rightharpoonup> addr"
  heap :: "addr \<Rightarrow> GraphNode"

definition all_nodes :: "ArgumentGraph \<Rightarrow> addr list" where
  "all_nodes g = introduction_nodes g @ transition_nodes g @ z_arguments_nodes g
                 @ graph_group_nodes g @ nz_arguments_nodes g @ faq_nodes g"

definition get_node_for_label :: "ArgumentGraph \<Rightarrow> string \<Rightarrow> addr option" where
  "get_node_for_label g l = label_to_node g l"

subsection \<open>Reference resolution\<close>

text \<open>The list of the nodes found for a set of labels, labels without a node dropped.\<close>

definition resolve :: "(string \<Rightarrow> addr option) \<Rightarrow> string list \<Rightarrow> addr list" where
  "resolve idx ls = List.map_filter idx ls"

text \<open>The body of each of the three loops, for the node at address \<open>a\<close>.\<close>

definition link_parents ::
  "(string \<Rightarrow> py_hash) \<Rightarrow> (string \<Rightarrow> addr option) \<Rightarrow> addr \<Rightarrow> (addr \<Rightarrow> GraphNode) \<Rightarrow> (addr \<Rightarrow> GraphNode)" where
  "link_parents h idx a hp =
     (if \<not> has_parent_labels (hp a) then hp
      else
        let ps = resolve idx (parents (hp a));
            hp1 = hp(a := (hp a)\<lparr>parent_nodes := set_update (node_key h hp) ps (parent_nodes (hp a))\<rparr>)
        in fold (\<lambda>p hp'. hp'(p := (hp' p)\<lparr>child_nodes := set_add (node_key h hp') a (child_nodes (hp' p))\<rparr>))
             ps hp1)"

definition link_groups ::
  "(string \<Rightarrow> py_hash) \<Rightarrow> (string \<Rightarrow> addr option) \<Rightarrow> addr \<Rightarrow> (addr \<Rightarrow> GraphNode) \<Rightarrow> (addr \<Rightarrow> GraphNode)" where
  "link_groups h idx a hp =
     (if \<not> has_group_labels (hp a) then hp
      else
        let gs = resolve idx (groups (hp a));
            hp1 = hp(a := (hp a)\<lparr>group_nodes := set_update (node_key h hp) gs (group_nodes (hp a))\<rparr>)
        in fold (\<lambda>p hp'. hp'(p := (hp' p)\<lparr>group_member_nodes :=
                                set_add (node_key h hp') a (group_member_nodes (hp' p))\<rparr>))
             gs hp1)"

definition link_similars ::
  "(string \<Rightarrow> py_hash) \<Rightarrow> (string \<Rightarrow> addr option) \<Rightarrow> addr \<Rightarrow> (addr \<Rightarrow> GraphNode) \<Rightarrow> (addr \<Rightarrow> GraphNode)" where
  "link_similars h idx a hp =
     (if similars (hp a) = [] then hp
      else
        let ss = resolve idx (similars (hp a));
            hp1 = hp(a := (hp a)\<lparr>similar_nodes := set_update (node_key h hp) ss (similar_nodes (hp a))\<rparr>)
        in fold (\<lambda>p hp'. hp'(p := (hp' p)\<lparr>similar_nodes := set_add (node_key h hp') a (similar_nodes (hp' p))\<rparr>))
             ss hp1)"

definition init_node_child_and_parent_references :: "(string \<Rightarrow> py_hash) \<Rightarrow> ArgumentGraph \<Rightarrow> ArgumentGraph" where
  "init_node_child_and_parent_references h g =
     g\<lparr>heap := fold (link_parents h (get_node_for_label g)) (all_nodes g) (heap g)\<rparr>"

definition init_node_similars_references :: "(string \<Rightarrow> py_hash) \<Rightarrow> ArgumentGraph \<Rightarrow> ArgumentGraph" where
  "init_node_similars_references h g =
     g\<lparr>heap := fold (link_similars h (get_node_for_label g)) (all_nodes g) (heap g)\<rparr>"

definition init_node_group_references :: "(string \<Rightarrow> py_hash) \<Rightarrow> ArgumentGraph \<Rightarrow> ArgumentGraph" where
  "init_node_group_references h g =
     g\<lparr>heap := fold (link_groups h (get_node_for_label g)) (all_nodes g) (heap g)\<rparr>"

definition init_node_references :: "(string \<Rightarrow> py_hash) \<Rightarrow> ArgumentGraph \<Rightarrow> ArgumentGraph" where
  "init_node_references h g =
     init_node_similars_references h
       (init_node_group_references h
         (init_node_child_and_parent_references h g))"

subsection \<open>The constraint check\<close>

text \<open>The five assertions made for one node; \<open>in\<close> is the membership test of the set.\<close>

definition node_constraints :: "(string \<Rightarrow> py_hash) \<Rightarrow> (addr \<Rightarrow> GraphNode) \<Rightarrow> addr \<Rightarrow> bool" where
  "node_constraints h hp a =
     ((\<forall>p \<in> set (parent_nodes (hp a)). set_contains (node_key h hp) (child_nodes (hp p)) a) \<and>
      (\<forall>c \<in> set (child_nodes (hp a)). set_contains (node_key h hp) (parent_nodes (hp c)) a) \<and>
      (\<forall>p \<in> set (group_nodes (hp a)). set_contains (node_key h hp) (group_member_nodes (hp p)) a) \<and>
      (\<forall>m \<in> set (group_member_nodes (hp a)). set_contains (node_key h hp) (group_nodes (hp m)) a) \<and>
      (\<forall>s \<in> set (similar_nodes (hp a)). set_contains (node_key h hp) (similar_nodes (hp s)) a))"

definition check_constraints :: "(string \<Rightarrow> py_hash) \<Rightarrow> ArgumentGraph \<Rightarrow> bool" where
  "check_constraints h g = (\<forall>a \<in> set (all_nodes g). node_constraints h (heap g) a)"

subsection \<open>Construction of the collection\<close>

text \<open>
  \<open>__post_init__\<close>: the dict comprehension stores the nodes in the order of \<open>all_nodes\<close>,
  a later node of the same label replacing an earlier one; a failed assertion ends the
  construction with \<open>AssertionError\<close>.
\<close>

definition build_index :: "ArgumentGraph \<Rightarrow> (string \<rightharpoonup> addr)" where
  "build_index g = fold (\<lambda>a m. m(label (heap g a) \<mapsto> a)) (all_nodes g) Map.empty"

definition ArgumentGraph_post_init :: "(string \<Rightarrow> py_hash) \<Rightarrow> ArgumentGraph \<Rightarrow> error + ArgumentGraph" where
  "ArgumentGraph_post_init h g =
     (let g1 = g\<lparr>label_to_node := build_index g\<rparr>;
          g2 = init_node_references h g1
      in if check_constraints h g2 then Inr g2 else Inl AssertionError)"

text \<open>
  The constructor receives six lists of node objects.  The objects are placed in the
  store one after the other, so the address of a node is its position in \<open>all_nodes\<close>;
  the generated \<open>__init__\<close> keeps the six lists and calls \<open>__post_init__\<close>.
\<close>

definition store_nodes ::
  "GraphNode list \<Rightarrow> GraphNode list \<Rightarrow> GraphNode list \<Rightarrow> GraphNode list
     \<Rightarrow> GraphNode list \<Rightarrow> GraphNode list \<Rightarrow> ArgumentGraph" where
  "store_nodes intros transitions zargs grps nzargs faq =
     (let i1 = length intros; i2 = i1 + length transitions; i3 = i2 + length zargs;
          i4 = i3 + length grps; i5 = i4 + length nzargs; i6 = i5 + length faq
      in \<lparr>introduction_nodes = [0..<i1], transition_nodes = [i1..<i2],
          z_arguments_nodes = [i2..<i3], graph_group_nodes = [i3..<i4],
          nz_arguments_nodes = [i4..<i5], faq_nodes = [i5..<i6],
          label_to_node = Map.empty,
          heap = (\<lambda>a. (intros @ transitions @ zargs @ grps @ nzargs @ faq) ! a)\<rparr>)"

definition new_ArgumentGraph ::
  "(string \<Rightarrow> py_hash) \<Rightarrow> GraphNode list \<Rightarrow> GraphNode list \<Rightarrow> GraphNode list \<Rightarrow> GraphNode list
     \<Rightarrow> GraphNode list \<Rightarrow> GraphNode list \<Rightarrow> error + ArgumentGraph" where
  "new_ArgumentGraph h intros transitions zargs grps nzargs faq =
     ArgumentGraph_post_init h (store_nodes intros transitions zargs grps nzargs faq)"

text \<open>
  \<open>from_dataframes\<close>, from the rows as \<open>get_nodes_from_df\<close> hands them to the node
  constructor (reading and splitting the table cells is not part of the model): every
  row becomes a new node object.
\<close>

definition from_dataframes ::
  "(string \<Rightarrow> py_hash) \<Rightarrow> GraphNode list \<Rightarrow> GraphNode list \<Rightarrow> GraphNode list \<Rightarrow> GraphNode list
     \<Rightarrow> GraphNode list \<Rightarrow> GraphNode list \<Rightarrow> error + ArgumentGraph" where
  "from_dataframes h intros transitions zargs grps nzargs faq =
     new_ArgumentGraph h (map new_GraphNode intros) (map new_GraphNode transitions)
       (map new_GraphNode zargs) (map new_GraphNode grps) (map new_GraphNode nzargs)
       (map new_GraphNode faq)"

subsection \<open>Queries\<close>

definition faq_question_nodes :: "ArgumentGraph \<Rightarrow> addr list" where
  "faq_question_nodes g = filter (\<lambda>a. \<not> has_parent_labels (heap g a)) (faq_nodes g)"

definition faq_answer_nodes :: "ArgumentGraph \<Rightarrow> addr list" where
  "faq_answer_nodes g = filter (\<lambda>a. has_parent_labels (heap g a)) (faq_nodes g)"

text \<open>
  An answer without a question node is skipped; otherwise the question is the first
  node the iteration of \<open>parent_nodes\<close> gives.
\<close>

definition faq_node_pairs :: "ArgumentGraph \<Rightarrow> (addr \<times> addr) list" where
  "faq_node_pairs g =
     List.map_filter
       (\<lambda>answer_node.
          if length (parent_nodes (heap g answer_node)) < 1 then None
          else Some (hd (parent_nodes (heap g answer_node)), answer_node))
       (faq_answer_nodes g)"

definition get_counter_args :: "ArgumentGraph \<Rightarrow> string \<Rightarrow> addr list option" where
  "get_counter_args g l =
     (case get_node_for_label g l of
        None \<Rightarrow> None
      | Some a \<Rightarrow> if length (child_nodes (heap g a)) > 0 then Some (child_nodes (heap g a)) else None)"

subsection \<open>Ancestors\<close>

text \<open>
  \<open>ancestor_nodes\<close> calls itself on every parent it has not yet collected.  The first
  argument is the number of nested calls the interpreter still allows; a call beyond it
  raises \<open>RecursionError\<close>, which ends every enclosing call.
\<close>

fun ancestor_nodes :: "nat \<Rightarrow> (string \<Rightarrow> py_hash) \<Rightarrow> (addr \<Rightarrow> GraphNode) \<Rightarrow> addr \<Rightarrow> error + addr list" where
  "ancestor_nodes 0 h hp a = Inl RecursionError"
| "ancestor_nodes (Suc d) h hp a =
     fold (\<lambda>parent_node acc.
             case acc of
               Inl e \<Rightarrow> Inl e
             | Inr S \<Rightarrow>
                 if set_contains (node_key h hp) S parent_node then Inr S
                 else (case ancestor_nodes d h hp parent_node of
                         Inl e \<Rightarrow> Inl e
                       | Inr R \<Rightarrow> Inr (set_update (node_key h hp) R (set_add (node_key h hp) parent_node S))))
          (parent_nodes (hp a)) (Inr [])"

text \<open>\<open>super_group_nodes\<close> is the same loop over \<open>group_nodes\<close>.\<close>

fun super_group_nodes :: "nat \<Rightarrow> (string \<Rightarrow> py_hash) \<Rightarrow> (addr \<Rightarrow> GraphNode) \<Rightarrow> addr \<Rightarrow> error + addr list" where
  "super_group_nodes 0 h hp a = Inl RecursionError"
| "super_group_nodes (Suc d) h hp a =
     fold (\<lambda>group_node acc.
             case acc of
               Inl e \<Rightarrow> Inl e
             | Inr S \<Rightarrow>
                 if set_contains (node_key h hp) S group_node then Inr S
                 else (case super_group_nodes d h hp group_node of
                         Inl e \<Rightarrow> Inl e
                       | Inr R \<Rightarrow> Inr (set_update (node_key h hp) R (set_add (node_key h hp) group_node S))))
          (group_nodes (hp a)) (Inr [])"

section \<open>What the three loops compute\<close>

text \<open>
  Auxiliary functions of the proofs: the value a link set has after the loop over the
  nodes \<open>as\<close>, for the node at address \<open>x\<close> whose set was \<open>S\<close> before.  \<open>res c\<close> is the
  list of nodes found for the labels of node \<open>c\<close>.  \<open>own_links\<close> is the set a node fills
  from its own labels (\<open>parent_nodes\<close>, \<open>group_nodes\<close>), \<open>back_links\<close> the set filled by
  the nodes that name it (\<open>child_nodes\<close>, \<open>group_member_nodes\<close>), and \<open>both_links\<close> the
  set filled from both sides (\<open>similar_nodes\<close>).
\<close>

definition own_links :: "(addr \<Rightarrow> py_hash) \<Rightarrow> (addr \<Rightarrow> addr list) \<Rightarrow> addr list \<Rightarrow> addr \<Rightarrow> addr list \<Rightarrow> addr list" where
  "own_links k res as x S = fold (\<lambda>c S. if x = c then set_update k (res c) S else S) as S"

definition back_links :: "(addr \<Rightarrow> py_hash) \<Rightarrow> (addr \<Rightarrow> addr list) \<Rightarrow> addr list \<Rightarrow> addr \<Rightarrow> addr list \<Rightarrow> addr list" where
  "back_links k res as x S = fold (\<lambda>c S. if x \<in> set (res c) then set_add k c S else S) as S"

definition both_links :: "(addr \<Rightarrow> py_hash) \<Rightarrow> (addr \<Rightarrow> addr list) \<Rightarrow> addr list \<Rightarrow> addr \<Rightarrow> addr list \<Rightarrow> addr list" where
  "both_links k res as x S =
     fold (\<lambda>c S. let S1 = (if x = c then set_update k (res c) S else S)
                  in if x \<in> set (res c) then set_add k c S1 else S1) as S"

text \<open>
  A node as the constructor returns it, with its five link sets empty; and the graph
  that \<open>__post_init__\<close> returns for six lists of nodes once the assertions have passed:
  the stored nodes, indexed and linked.
\<close>

definition fresh :: "GraphNode \<Rightarrow> bool" where
  "fresh n \<longleftrightarrow> child_nodes n = [] \<and> parent_nodes n = [] \<and> similar_nodes n = [] \<and>
               group_nodes n = [] \<and> group_member_nodes n = []"

definition graph_of ::
  "(string \<Rightarrow> py_hash) \<Rightarrow> GraphNode list \<Rightarrow> GraphNode list \<Rightarrow> GraphNode list \<Rightarrow> GraphNode list
     \<Rightarrow> GraphNode list \<Rightarrow> GraphNode list \<Rightarrow> ArgumentGraph" where
  "graph_of h I T Z G N F =
     init_node_references h
       ((store_nodes I T Z G N F)\<lparr>label_to_node := build_index (store_nodes I T Z G N F)\<rparr>)"

section \<open>Sets of nodes: membership after \<open>add\<close> and \<open>update\<close>\<close>

lemma set_contains_Nil: "\<not> set_contains k [] x"
  by (simp add: set_contains_def)

lemma set_contains_stored: "x \<in> set S \<Longrightarrow> set_contains k S x"
  by (auto simp: set_contains_def)

lemma set_contains_add: "set_contains k (set_add k x S) y \<longleftrightarrow> set_contains k S y \<or> k x = k y"
  by (auto simp: set_add_def set_contains_def)

lemma set_add_subset: "set (set_add k x S) \<subseteq> insert x (set S)"
  by (auto simp: set_add_def)

lemma set_add_mono: "set S \<subseteq> set (set_add k x S)"
  by (auto simp: set_add_def)

lemma set_add_idem: "set_add k x (set_add k x S) = set_add k x S"
  by (auto simp: set_add_def set_contains_def)

lemma set_contains_update:
  "set_contains k (set_update k xs S) y \<longleftrightarrow> set_contains k S y \<or> (\<exists>x \<in> set xs. k x = k y)"
  unfolding set_update_def
  by (induction xs arbitrary: S) (auto simp: set_contains_add)

lemma set_update_subset: "set (set_update k xs S) \<subseteq> set S \<union> set xs"
  unfolding set_update_def
proof (induction xs arbitrary: S)
  case Nil
  show ?case by simp
next
  case (Cons x xs)
  have "set (fold (set_add k) xs (set_add k x S)) \<subseteq> set (set_add k x S) \<union> set xs"
    by (rule Cons.IH)
  with set_add_subset [of k x S] show ?case by auto
qed

lemma set_update_Nil: "set_update k [] S = S"
  by (simp add: set_update_def)

lemma set_contains_inj:
  assumes "inj_on k A" and "set S \<subseteq> A" and "x \<in> A"
  shows "set_contains k S x \<longleftrightarrow> x \<in> set S"
  using assms by (auto simp: set_contains_def inj_on_def)

section \<open>The link sets after a loop\<close>

lemma own_links_notin: "x \<notin> set as \<Longrightarrow> own_links k res as x S = S"
  unfolding own_links_def by (induction as arbitrary: S) auto

lemma own_links_distinct:
  "distinct as \<Longrightarrow> own_links k res as x S = (if x \<in> set as then set_update k (res x) S else S)"
proof (induction as arbitrary: S)
  case Nil
  show ?case by (simp add: own_links_def)
next
  case (Cons a as)
  have step: "own_links k res (a # as) x S = own_links k res as x (if x = a then set_update k (res a) S else S)"
    by (simp add: own_links_def)
  show ?case
  proof (cases "x = a")
    case True
    with Cons.prems have "x \<notin> set as" by simp
    with True step show ?thesis by (simp add: own_links_notin)
  next
    case False
    with Cons step show ?thesis by simp
  qed
qed

lemma own_links_snoc:
  "own_links k res (as @ [a]) x S = (if x = a then set_update k (res a) (own_links k res as x S) else own_links k res as x S)"
  by (simp add: own_links_def)

lemma own_links_stored:
  "s \<in> set (own_links k res as x S) \<Longrightarrow> s \<in> set S \<or> (x \<in> set as \<and> s \<in> set (res x))"
proof (induction as rule: rev_induct)
  case Nil
  then show ?case by (simp add: own_links_def)
next
  case (snoc a as)
  then show ?case
    using set_update_subset [of k "res a" "own_links k res as x S"]
    by (auto simp: own_links_snoc split: if_splits)
qed

lemma own_links_contains:
  "set_contains k (own_links k res as x S) y \<longleftrightarrow>
     set_contains k S y \<or> (x \<in> set as \<and> (\<exists>s \<in> set (res x). k s = k y))"
  by (induction as rule: rev_induct) (auto simp: own_links_def set_contains_update)

lemma back_links_snoc:
  "back_links k res (as @ [a]) x S = (if x \<in> set (res a) then set_add k a (back_links k res as x S) else back_links k res as x S)"
  by (simp add: back_links_def)

lemma back_links_stored:
  "c \<in> set (back_links k res as x S) \<Longrightarrow> c \<in> set S \<or> (c \<in> set as \<and> x \<in> set (res c))"
  unfolding back_links_def
proof (induction as arbitrary: S)
  case Nil
  then show ?case by simp
next
  case (Cons a as)
  from Cons.prems have "c \<in> set (fold (\<lambda>c S. if x \<in> set (res c) then set_add k c S else S) as
                          (if x \<in> set (res a) then set_add k a S else S))"
    by simp
  from Cons.IH [OF this] set_add_subset [of k a S] show ?case
    by (auto split: if_splits)
qed

lemma back_links_contains:
  "set_contains k (back_links k res as x S) y \<longleftrightarrow>
     set_contains k S y \<or> (\<exists>c \<in> set as. x \<in> set (res c) \<and> k c = k y)"
  unfolding back_links_def
  by (induction as arbitrary: S) (auto simp: set_contains_add)

lemma both_links_Cons:
  "both_links k res (a # as) x S =
     both_links k res as x
       (if x \<in> set (res a) then set_add k a (if x = a then set_update k (res a) S else S)
        else (if x = a then set_update k (res a) S else S))"
  by (simp add: both_links_def Let_def)

lemma both_links_snoc:
  "both_links k res (as @ [a]) x S =
     (if x \<in> set (res a)
      then set_add k a (if x = a then set_update k (res a) (both_links k res as x S) else both_links k res as x S)
      else (if x = a then set_update k (res a) (both_links k res as x S) else both_links k res as x S))"
  by (cases "x = a") (simp_all add: both_links_def Let_def)

lemma both_links_stored:
  "s \<in> set (both_links k res as x S) \<Longrightarrow>
     s \<in> set S \<or> (x \<in> set as \<and> s \<in> set (res x)) \<or> (s \<in> set as \<and> x \<in> set (res s))"
proof (induction as arbitrary: S)
  case Nil
  then show ?case by (simp add: both_links_def)
next
  case (Cons a as)
  define S1 where "S1 = (if x = a then set_update k (res a) S else S)"
  define S2 where "S2 = (if x \<in> set (res a) then set_add k a S1 else S1)"
  from Cons.prems have "s \<in> set (both_links k res as x S2)"
    by (simp only: both_links_Cons S1_def S2_def)
  from Cons.IH [OF this]
  have "s \<in> set S2 \<or> (x \<in> set as \<and> s \<in> set (res x)) \<or> (s \<in> set as \<and> x \<in> set (res s))" .
  moreover have "set S2 \<subseteq> set S1 \<union> (if x \<in> set (res a) then {a} else {})"
    using set_add_subset [of k a S1] by (auto simp: S2_def)
  moreover have "set S1 \<subseteq> set S \<union> (if x = a then set (res a) else {})"
    using set_update_subset [of k "res a" S] by (auto simp: S1_def)
  ultimately show ?case by (auto split: if_splits)
qed

lemma both_links_contains:
  "set_contains k (both_links k res as x S) y \<longleftrightarrow>
     set_contains k S y \<or> (x \<in> set as \<and> (\<exists>s \<in> set (res x). k s = k y))
       \<or> (\<exists>c \<in> set as. x \<in> set (res c) \<and> k c = k y)"
proof (induction as arbitrary: S)
  case Nil
  show ?case by (simp add: both_links_def)
next
  case (Cons a as)
  show ?case
    unfolding both_links_Cons Cons.IH
    by (auto simp: set_contains_add set_contains_update)
qed

section \<open>The three loops on the store\<close>

text \<open>
  Each loop body changes the store at the node itself and at the nodes found for its
  labels; the loop over all nodes then yields the closed forms above, the other fields
  of every node unchanged.
\<close>

lemma resolve_iff: "p \<in> set (resolve idx ls) \<longleftrightarrow> (\<exists>l \<in> set ls. idx l = Some p)"
  by (induction ls) (auto simp: resolve_def split: option.splits)

lemma resolve_Nil: "(\<forall>l \<in> set ls. idx l = None) \<Longrightarrow> resolve idx ls = []"
  using resolve_iff [of _ idx ls] by (cases "resolve idx ls") auto

lemma fold_update_each:
  assumes idem: "\<And>k n. U k (U k n) = U k n"
      and key: "\<And>hp p. K (hp(p := U (K hp) (hp p))) = K hp"
  shows "fold (\<lambda>p hp. hp(p := U (K hp) (hp p))) ps hp = (\<lambda>x. if x \<in> set ps then U (K hp) (hp x) else hp x)"
proof (induction ps arbitrary: hp)
  case Nil
  show ?case by simp
next
  case (Cons p ps)
  define hp1 where "hp1 = hp(p := U (K hp) (hp p))"
  have k1: "K hp1 = K hp" unfolding hp1_def by (rule key)
  have "fold (\<lambda>p hp. hp(p := U (K hp) (hp p))) (p # ps) hp
        = fold (\<lambda>p hp. hp(p := U (K hp) (hp p))) ps hp1"
    by (simp add: hp1_def)
  also have "\<dots> = (\<lambda>x. if x \<in> set ps then U (K hp1) (hp1 x) else hp1 x)"
    by (rule Cons.IH)
  also have "\<dots> = (\<lambda>x. if x \<in> set (p # ps) then U (K hp) (hp x) else hp x)"
    by (rule ext) (simp add: hp1_def key idem)
  finally show ?case .
qed

lemma node_key_parent_upd [simp]: "node_key h (hp(p := (hp p)\<lparr>parent_nodes := X\<rparr>)) = node_key h hp"
  by (rule ext) (simp add: node_key_def GraphNode_hash_def)

lemma node_key_child_upd [simp]: "node_key h (hp(p := (hp p)\<lparr>child_nodes := X\<rparr>)) = node_key h hp"
  by (rule ext) (simp add: node_key_def GraphNode_hash_def)

lemma node_key_group_upd [simp]: "node_key h (hp(p := (hp p)\<lparr>group_nodes := X\<rparr>)) = node_key h hp"
  by (rule ext) (simp add: node_key_def GraphNode_hash_def)

lemma node_key_member_upd [simp]: "node_key h (hp(p := (hp p)\<lparr>group_member_nodes := X\<rparr>)) = node_key h hp"
  by (rule ext) (simp add: node_key_def GraphNode_hash_def)

lemma node_key_similar_upd [simp]: "node_key h (hp(p := (hp p)\<lparr>similar_nodes := X\<rparr>)) = node_key h hp"
  by (rule ext) (simp add: node_key_def GraphNode_hash_def)

lemma link_parents_apply:
  "link_parents h idx a hp x =
     (hp x)\<lparr>parent_nodes :=
               (if x = a then set_update (node_key h hp) (resolve idx (parents (hp a))) (parent_nodes (hp x))
                else parent_nodes (hp x)),
             child_nodes :=
               (if x \<in> set (resolve idx (parents (hp a)))
                then set_add (node_key h hp) a (child_nodes (hp x)) else child_nodes (hp x))\<rparr>"
proof (cases "has_parent_labels (hp a)")
  case False
  then have "parents (hp a) = []" by (simp add: has_parent_labels_def)
  with False show ?thesis
    by (simp add: link_parents_def resolve_def set_update_Nil)
next
  case True
  define ps where "ps = resolve idx (parents (hp a))"
  define hp1 where "hp1 = hp(a := (hp a)\<lparr>parent_nodes := set_update (node_key h hp) ps (parent_nodes (hp a))\<rparr>)"
  have k1: "node_key h hp1 = node_key h hp" by (simp add: hp1_def)
  have "link_parents h idx a hp =
          fold (\<lambda>p hp'. hp'(p := (hp' p)\<lparr>child_nodes := set_add (node_key h hp') a (child_nodes (hp' p))\<rparr>)) ps hp1"
    using True by (simp add: link_parents_def Let_def ps_def hp1_def)
  also have "\<dots> = (\<lambda>x. if x \<in> set ps then (hp1 x)\<lparr>child_nodes := set_add (node_key h hp1) a (child_nodes (hp1 x))\<rparr> else hp1 x)"
    by (rule fold_update_each [where U = "\<lambda>k n. n\<lparr>child_nodes := set_add k a (child_nodes n)\<rparr>" and K = "node_key h"])
       (simp_all add: set_add_idem)
  finally show ?thesis
    by (simp add: k1 hp1_def ps_def)
qed

lemma fold_link_parents:
  "fold (link_parents h idx) as hp =
     (\<lambda>x. (hp x)\<lparr>parent_nodes := own_links (node_key h hp) (\<lambda>c. resolve idx (parents (hp c))) as x (parent_nodes (hp x)),
                  child_nodes := back_links (node_key h hp) (\<lambda>c. resolve idx (parents (hp c))) as x (child_nodes (hp x))\<rparr>)"
proof (induction as rule: rev_induct)
  case Nil
  show ?case by (simp add: own_links_def back_links_def)
next
  case (snoc a as)
  define hp' where "hp' = fold (link_parents h idx) as hp"
  have k': "node_key h hp' = node_key h hp"
    unfolding hp'_def snoc.IH by (rule ext) (simp add: node_key_def GraphNode_hash_def)
  have p': "parents (hp' c) = parents (hp c)" for c
    unfolding hp'_def snoc.IH by simp
  have "fold (link_parents h idx) (as @ [a]) hp = link_parents h idx a hp'"
    by (simp add: hp'_def)
  also have "\<dots> = (\<lambda>x. (hp x)\<lparr>parent_nodes := own_links (node_key h hp) (\<lambda>c. resolve idx (parents (hp c))) (as @ [a]) x (parent_nodes (hp x)),
                  child_nodes := back_links (node_key h hp) (\<lambda>c. resolve idx (parents (hp c))) (as @ [a]) x (child_nodes (hp x))\<rparr>)"
    by (rule ext) (simp add: link_parents_apply k' p' own_links_snoc back_links_snoc, simp add: hp'_def snoc.IH)
  finally show ?case .
qed

lemma link_groups_apply:
  "link_groups h idx a hp x =
     (hp x)\<lparr>group_nodes :=
               (if x = a then set_update (node_key h hp) (resolve idx (groups (hp a))) (group_nodes (hp x))
                else group_nodes (hp x)),
             group_member_nodes :=
               (if x \<in> set (resolve idx (groups (hp a)))
                then set_add (node_key h hp) a (group_member_nodes (hp x)) else group_member_nodes (hp x))\<rparr>"
proof (cases "has_group_labels (hp a)")
  case False
  then have "groups (hp a) = []" by (simp add: has_group_labels_def)
  with False show ?thesis
    by (simp add: link_groups_def resolve_def set_update_Nil)
next
  case True
  define gs where "gs = resolve idx (groups (hp a))"
  define hp1 where "hp1 = hp(a := (hp a)\<lparr>group_nodes := set_update (node_key h hp) gs (group_nodes (hp a))\<rparr>)"
  have k1: "node_key h hp1 = node_key h hp" by (simp add: hp1_def)
  have "link_groups h idx a hp =
          fold (\<lambda>p hp'. hp'(p := (hp' p)\<lparr>group_member_nodes :=
                   set_add (node_key h hp') a (group_member_nodes (hp' p))\<rparr>)) gs hp1"
    using True by (simp add: link_groups_def Let_def gs_def hp1_def)
  also have "\<dots> = (\<lambda>x. if x \<in> set gs
                        then (hp1 x)\<lparr>group_member_nodes := set_add (node_key h hp1) a (group_member_nodes (hp1 x))\<rparr>
                        else hp1 x)"
    by (rule fold_update_each [where U = "\<lambda>k n. n\<lparr>group_member_nodes := set_add k a (group_member_nodes n)\<rparr>"
                                 and K = "node_key h"])
       (simp_all add: set_add_idem)
  finally show ?thesis
    by (simp add: k1 hp1_def gs_def)
qed

lemma fold_link_groups:
  "fold (link_groups h idx) as hp =
     (\<lambda>x. (hp x)\<lparr>group_nodes := own_links (node_key h hp) (\<lambda>c. resolve idx (groups (hp c))) as x (group_nodes (hp x)),
                  group_member_nodes := back_links (node_key h hp) (\<lambda>c. resolve idx (groups (hp c))) as x (group_member_nodes (hp x))\<rparr>)"
proof (induction as rule: rev_induct)
  case Nil
  show ?case by (simp add: own_links_def back_links_def)
next
  case (snoc a as)
  define hp' where "hp' = fold (link_groups h idx) as hp"
  have k': "node_key h hp' = node_key h hp"
    unfolding hp'_def snoc.IH by (rule ext) (simp add: node_key_def GraphNode_hash_def)
  have p': "groups (hp' c) = groups (hp c)" for c
    unfolding hp'_def snoc.IH by simp
  have "fold (link_groups h idx) (as @ [a]) hp = link_groups h idx a hp'"
    by (simp add: hp'_def)
  also have "\<dots> = (\<lambda>x. (hp x)\<lparr>group_nodes := own_links (node_key h hp) (\<lambda>c. resolve idx (groups (hp c))) (as @ [a]) x (group_nodes (hp x)),
                  group_member_nodes := back_links (node_key h hp) (\<lambda>c. resolve idx (groups (hp c))) (as @ [a]) x (group_member_nodes (hp x))\<rparr>)"
    by (rule ext) (simp add: link_groups_apply k' p' own_links_snoc back_links_snoc, simp add: hp'_def snoc.IH)
  finally show ?case .
qed

lemma link_similars_apply:
  "link_similars h idx a hp x =
     (hp x)\<lparr>similar_nodes :=
               (if x \<in> set (resolve idx (similars (hp a)))
                then set_add (node_key h hp) a
                       (if x = a then set_update (node_key h hp) (resolve idx (similars (hp a))) (similar_nodes (hp x))
                        else similar_nodes (hp x))
                else (if x = a then set_update (node_key h hp) (resolve idx (similars (hp a))) (similar_nodes (hp x))
                      else similar_nodes (hp x)))\<rparr>"
proof (cases "similars (hp a) = []")
  case True
  then show ?thesis
    by (simp add: link_similars_def resolve_def set_update_Nil)
next
  case False
  define ss where "ss = resolve idx (similars (hp a))"
  define hp1 where "hp1 = hp(a := (hp a)\<lparr>similar_nodes := set_update (node_key h hp) ss (similar_nodes (hp a))\<rparr>)"
  have k1: "node_key h hp1 = node_key h hp" by (simp add: hp1_def)
  have "link_similars h idx a hp =
          fold (\<lambda>p hp'. hp'(p := (hp' p)\<lparr>similar_nodes := set_add (node_key h hp') a (similar_nodes (hp' p))\<rparr>)) ss hp1"
    using False by (simp add: link_similars_def Let_def ss_def hp1_def)
  also have "\<dots> = (\<lambda>x. if x \<in> set ss
                        then (hp1 x)\<lparr>similar_nodes := set_add (node_key h hp1) a (similar_nodes (hp1 x))\<rparr>
                        else hp1 x)"
    by (rule fold_update_each [where U = "\<lambda>k n. n\<lparr>similar_nodes := set_add k a (similar_nodes n)\<rparr>"
                                 and K = "node_key h"])
       (simp_all add: set_add_idem)
  finally show ?thesis
    by (simp add: k1 hp1_def ss_def)
qed

lemma fold_link_similars:
  "fold (link_similars h idx) as hp =
     (\<lambda>x. (hp x)\<lparr>similar_nodes :=
                    both_links (node_key h hp) (\<lambda>c. resolve idx (similars (hp c))) as x (similar_nodes (hp x))\<rparr>)"
proof (induction as rule: rev_induct)
  case Nil
  show ?case by (simp add: both_links_def)
next
  case (snoc a as)
  define hp' where "hp' = fold (link_similars h idx) as hp"
  have k': "node_key h hp' = node_key h hp"
    unfolding hp'_def snoc.IH by (rule ext) (simp add: node_key_def GraphNode_hash_def)
  have p': "similars (hp' c) = similars (hp c)" for c
    unfolding hp'_def snoc.IH by simp
  have "fold (link_similars h idx) (as @ [a]) hp = link_similars h idx a hp'"
    by (simp add: hp'_def)
  also have "\<dots> = (\<lambda>x. (hp x)\<lparr>similar_nodes :=
                    both_links (node_key h hp) (\<lambda>c. resolve idx (similars (hp c))) (as @ [a]) x (similar_nodes (hp x))\<rparr>)"
    by (rule ext) (simp add: link_similars_apply k' p' both_links_snoc, simp add: hp'_def snoc.IH)
  finally show ?case .
qed

lemma heap_parents_pass:
  "heap (init_node_child_and_parent_references h g) =
     (\<lambda>x. (heap g x)\<lparr>
        parent_nodes := own_links (node_key h (heap g)) (\<lambda>c. resolve (get_node_for_label g) (parents (heap g c)))
                          (all_nodes g) x (parent_nodes (heap g x)),
        child_nodes := back_links (node_key h (heap g)) (\<lambda>c. resolve (get_node_for_label g) (parents (heap g c)))
                          (all_nodes g) x (child_nodes (heap g x))\<rparr>)"
  by (simp add: init_node_child_and_parent_references_def fold_link_parents)

lemma heap_groups_pass:
  "heap (init_node_group_references h g) =
     (\<lambda>x. (heap g x)\<lparr>
        group_nodes := own_links (node_key h (heap g)) (\<lambda>c. resolve (get_node_for_label g) (groups (heap g c)))
                          (all_nodes g) x (group_nodes (heap g x)),
        group_member_nodes := back_links (node_key h (heap g)) (\<lambda>c. resolve (get_node_for_label g) (groups (heap g c)))
                          (all_nodes g) x (group_member_nodes (heap g x))\<rparr>)"
  by (simp add: init_node_group_references_def fold_link_groups)

lemma heap_similars_pass:
  "heap (init_node_similars_references h g) =
     (\<lambda>x. (heap g x)\<lparr>
        similar_nodes := both_links (node_key h (heap g)) (\<lambda>c. resolve (get_node_for_label g) (similars (heap g c)))
                          (all_nodes g) x (similar_nodes (heap g x))\<rparr>)"
  by (simp add: init_node_similars_references_def fold_link_similars)

lemma pass_frame [simp]:
  "all_nodes (g\<lparr>heap := hp\<rparr>) = all_nodes g"
  "get_node_for_label (g\<lparr>heap := hp\<rparr>) = get_node_for_label g"
  by (simp_all add: all_nodes_def get_node_for_label_def fun_eq_iff)

lemma heap_init_node_references:
  "heap (init_node_references h g) =
     (\<lambda>x. (heap g x)\<lparr>
        parent_nodes := own_links (node_key h (heap g)) (\<lambda>c. resolve (get_node_for_label g) (parents (heap g c)))
                          (all_nodes g) x (parent_nodes (heap g x)),
        child_nodes := back_links (node_key h (heap g)) (\<lambda>c. resolve (get_node_for_label g) (parents (heap g c)))
                          (all_nodes g) x (child_nodes (heap g x)),
        group_nodes := own_links (node_key h (heap g)) (\<lambda>c. resolve (get_node_for_label g) (groups (heap g c)))
                          (all_nodes g) x (group_nodes (heap g x)),
        group_member_nodes := back_links (node_key h (heap g)) (\<lambda>c. resolve (get_node_for_label g) (groups (heap g c)))
                          (all_nodes g) x (group_member_nodes (heap g x)),
        similar_nodes := both_links (node_key h (heap g)) (\<lambda>c. resolve (get_node_for_label g) (similars (heap g c)))
                          (all_nodes g) x (similar_nodes (heap g x))\<rparr>)"
proof -
  define g1 where "g1 = init_node_child_and_parent_references h g"
  define g2 where "g2 = init_node_group_references h g1"
  have a1: "all_nodes g1 = all_nodes g" and l1: "get_node_for_label g1 = get_node_for_label g"
    by (simp_all add: g1_def init_node_child_and_parent_references_def)
  have a2: "all_nodes g2 = all_nodes g" and l2: "get_node_for_label g2 = get_node_for_label g"
    by (simp_all add: g2_def init_node_group_references_def a1 l1)
  have k1: "node_key h (heap g1) = node_key h (heap g)"
    by (rule ext) (simp add: g1_def heap_parents_pass node_key_def GraphNode_hash_def)
  have k2: "node_key h (heap g2) = node_key h (heap g)"
    by (rule ext) (simp add: g2_def heap_groups_pass node_key_def GraphNode_hash_def k1 [unfolded node_key_def GraphNode_hash_def fun_eq_iff])
  have h2: "heap g2 = (\<lambda>x. (heap g x)\<lparr>
        parent_nodes := own_links (node_key h (heap g)) (\<lambda>c. resolve (get_node_for_label g) (parents (heap g c)))
                          (all_nodes g) x (parent_nodes (heap g x)),
        child_nodes := back_links (node_key h (heap g)) (\<lambda>c. resolve (get_node_for_label g) (parents (heap g c)))
                          (all_nodes g) x (child_nodes (heap g x)),
        group_nodes := own_links (node_key h (heap g)) (\<lambda>c. resolve (get_node_for_label g) (groups (heap g c)))
                          (all_nodes g) x (group_nodes (heap g x)),
        group_member_nodes := back_links (node_key h (heap g)) (\<lambda>c. resolve (get_node_for_label g) (groups (heap g c)))
                          (all_nodes g) x (group_member_nodes (heap g x))\<rparr>)"
    unfolding g2_def heap_groups_pass a1 l1 k1
    by (rule ext) (simp add: g1_def heap_parents_pass)
  have "heap (init_node_references h g) = heap (init_node_similars_references h g2)"
    by (simp add: init_node_references_def g1_def g2_def)
  also have "\<dots> = (\<lambda>x. (heap g2 x)\<lparr>
        similar_nodes := both_links (node_key h (heap g)) (\<lambda>c. resolve (get_node_for_label g) (similars (heap g2 c)))
                          (all_nodes g) x (similar_nodes (heap g2 x))\<rparr>)"
    unfolding heap_similars_pass a2 l2 k2 ..
  finally show ?thesis
    by (simp add: h2)
qed

lemma init_node_references_frame:
  "all_nodes (init_node_references h g) = all_nodes g"
  "get_node_for_label (init_node_references h g) = get_node_for_label g"
  "label_to_node (init_node_references h g) = label_to_node g"
  "faq_nodes (init_node_references h g) = faq_nodes g"
  by (simp_all add: init_node_references_def init_node_similars_references_def
        init_node_group_references_def init_node_child_and_parent_references_def
        all_nodes_def get_node_for_label_def fun_eq_iff)

lemma init_node_references_raw:
  "label (heap (init_node_references h g) x) = label (heap g x)"
  "parents (heap (init_node_references h g) x) = parents (heap g x)"
  "groups (heap (init_node_references h g) x) = groups (heap g x)"
  "similars (heap (init_node_references h g) x) = similars (heap g x)"
  "full_text (heap (init_node_references h g) x) = full_text (heap g x)"
  by (simp_all add: heap_init_node_references)

lemma init_node_references_key:
  "node_key h (heap (init_node_references h' g)) = node_key h (heap g)"
  by (rule ext) (simp add: node_key_def GraphNode_hash_def init_node_references_raw)

lemma init_node_references_links:
  "parent_nodes (heap (init_node_references h g) x) =
     own_links (node_key h (heap g)) (\<lambda>c. resolve (get_node_for_label g) (parents (heap g c)))
       (all_nodes g) x (parent_nodes (heap g x))"
  "child_nodes (heap (init_node_references h g) x) =
     back_links (node_key h (heap g)) (\<lambda>c. resolve (get_node_for_label g) (parents (heap g c)))
       (all_nodes g) x (child_nodes (heap g x))"
  "group_nodes (heap (init_node_references h g) x) =
     own_links (node_key h (heap g)) (\<lambda>c. resolve (get_node_for_label g) (groups (heap g c)))
       (all_nodes g) x (group_nodes (heap g x))"
  "group_member_nodes (heap (init_node_references h g) x) =
     back_links (node_key h (heap g)) (\<lambda>c. resolve (get_node_for_label g) (groups (heap g c)))
       (all_nodes g) x (group_member_nodes (heap g x))"
  "similar_nodes (heap (init_node_references h g) x) =
     both_links (node_key h (heap g)) (\<lambda>c. resolve (get_node_for_label g) (similars (heap g c)))
       (all_nodes g) x (similar_nodes (heap g x))"
  by (simp_all add: heap_init_node_references)

lemma no_links_init: "no_links (heap (init_node_references h g) x) = no_links (heap g x)"
  by (simp add: heap_init_node_references no_links_def)

section \<open>The assertions hold after the loops\<close>

text \<open>
  On nodes that enter with empty link sets none of the five assertions can fail.
\<close>

lemma check_constraints_init_node_references:
  assumes fresh: "\<And>a. a \<in> set (all_nodes g) \<Longrightarrow> fresh (heap g a)"
  shows "check_constraints h (init_node_references h g)"
proof -
  define k where "k = node_key h (heap g)"
  define as where "as = all_nodes g"
  have "node_constraints h (heap (init_node_references h g)) a" if a: "a \<in> set as" for a
  proof -
    from a fresh have fr: "fresh (heap g a)" by (simp add: as_def)
    show ?thesis
      unfolding node_constraints_def init_node_references_key init_node_references_links
        k_def [symmetric] as_def [symmetric]
    proof (intro conjI ballI)
      fix p
      assume "p \<in> set (own_links k (\<lambda>c. resolve (get_node_for_label g) (parents (heap g c))) as a (parent_nodes (heap g a)))"
      with fr have "p \<in> set (resolve (get_node_for_label g) (parents (heap g a)))"
        by (auto dest: own_links_stored simp: fresh_def)
      with a show "set_contains k (back_links k (\<lambda>c. resolve (get_node_for_label g) (parents (heap g c))) as p (child_nodes (heap g p))) a"
        by (auto simp: back_links_contains)
    next
      fix c
      assume "c \<in> set (back_links k (\<lambda>c. resolve (get_node_for_label g) (parents (heap g c))) as a (child_nodes (heap g a)))"
      with fr have "c \<in> set as \<and> a \<in> set (resolve (get_node_for_label g) (parents (heap g c)))"
        by (auto dest: back_links_stored simp: fresh_def)
      then show "set_contains k (own_links k (\<lambda>c. resolve (get_node_for_label g) (parents (heap g c))) as c (parent_nodes (heap g c))) a"
        by (auto simp: own_links_contains)
    next
      fix p
      assume "p \<in> set (own_links k (\<lambda>c. resolve (get_node_for_label g) (groups (heap g c))) as a (group_nodes (heap g a)))"
      with fr have "p \<in> set (resolve (get_node_for_label g) (groups (heap g a)))"
        by (auto dest: own_links_stored simp: fresh_def)
      with a show "set_contains k (back_links k (\<lambda>c. resolve (get_node_for_label g) (groups (heap g c))) as p (group_member_nodes (heap g p))) a"
        by (auto simp: back_links_contains)
    next
      fix m
      assume "m \<in> set (back_links k (\<lambda>c. resolve (get_node_for_label g) (groups (heap g c))) as a (group_member_nodes (heap g a)))"
      with fr have "m \<in> set as \<and> a \<in> set (resolve (get_node_for_label g) (groups (heap g m)))"
        by (auto dest: back_links_stored simp: fresh_def)
      then show "set_contains k (own_links k (\<lambda>c. resolve (get_node_for_label g) (groups (heap g c))) as m (group_nodes (heap g m))) a"
        by (auto simp: own_links_contains)
    next
      fix s
      assume "s \<in> set (both_links k (\<lambda>c. resolve (get_node_for_label g) (similars (heap g c))) as a (similar_nodes (heap g a)))"
      with fr have "(a \<in> set as \<and> s \<in> set (resolve (get_node_for_label g) (similars (heap g a)))) \<or>
                    (s \<in> set as \<and> a \<in> set (resolve (get_node_for_label g) (similars (heap g s))))"
        by (auto dest: both_links_stored simp: fresh_def)
      then show "set_contains k (both_links k (\<lambda>c. resolve (get_node_for_label g) (similars (heap g c))) as s (similar_nodes (heap g s))) a"
        by (auto simp: both_links_contains)
    qed
  qed
  then show ?thesis
    by (simp add: check_constraints_def init_node_references_frame as_def)
qed

section \<open>The store and the index of a new collection\<close>

lemma upt_append_le: "i \<le> j \<Longrightarrow> j \<le> k \<Longrightarrow> [i..<j] @ [j..<k] = [i..<k]"
  by (metis le_Suc_ex upt_add_eq_append)

lemma all_nodes_store_nodes:
  "all_nodes (store_nodes I T Z G N F) = [0..<length (I @ T @ Z @ G @ N @ F)]"
proof -
  have "[0..<length I] @ [length I..<length I + length T] @ [length I + length T..<length I + length T + length Z]
        @ [length I + length T + length Z..<length I + length T + length Z + length G]
        @ [length I + length T + length Z + length G..<length I + length T + length Z + length G + length N]
        @ [length I + length T + length Z + length G + length N..<length I + length T + length Z + length G + length N + length F]
        = [0..<length I + length T + length Z + length G + length N + length F]"
    by (simp add: upt_append_le)
  then show ?thesis
    by (simp add: all_nodes_def store_nodes_def Let_def add.assoc)
qed

lemma heap_store_nodes: "heap (store_nodes I T Z G N F) = (\<lambda>a. (I @ T @ Z @ G @ N @ F) ! a)"
  by (simp add: store_nodes_def Let_def)

lemma all_nodes_label_to_node_upd [simp]: "all_nodes (g\<lparr>label_to_node := m\<rparr>) = all_nodes g"
  by (simp add: all_nodes_def)

lemma index_upt:
  "fold (\<lambda>a m. m(lab a \<mapsto> a)) [0..<n] Map.empty l = Some b \<longleftrightarrow>
     b < n \<and> lab b = l \<and> (\<forall>c. b < c \<and> c < n \<longrightarrow> lab c \<noteq> l)"
proof (induction n arbitrary: b)
  case 0
  show ?case by simp
next
  case (Suc n)
  show ?case
  proof (cases "lab n = l")
    case True
    then show ?thesis
      by (auto simp: less_Suc_eq)
  next
    case False
    then show ?thesis
      using Suc.IH [of b] by (auto simp: less_Suc_eq)
  qed
qed

lemma index_upt_None:
  "fold (\<lambda>a m. m(lab a \<mapsto> a)) [0..<n] Map.empty l = None \<longleftrightarrow> (\<forall>c < n. lab c \<noteq> l)"
  by (induction n) (auto simp: less_Suc_eq)

lemma index_map_of:
  "fold (\<lambda>a m. m(lab a \<mapsto> a)) as Map.empty = map_of (rev (map (\<lambda>a. (lab a, a)) as))"
proof (induction as rule: rev_induct)
  case Nil
  show ?case by simp
next
  case (snoc x xs)
  have "fold (\<lambda>a m. m(lab a \<mapsto> a)) (xs @ [x]) Map.empty
        = (fold (\<lambda>a m. m(lab a \<mapsto> a)) xs Map.empty)(lab x \<mapsto> x)"
    by simp
  also have "\<dots> = (map_of (rev (map (\<lambda>a. (lab a, a)) xs)))(lab x \<mapsto> x)"
    by (simp only: snoc.IH)
  also have "\<dots> = map_of (rev (map (\<lambda>a. (lab a, a)) (xs @ [x])))"
    by simp
  finally show ?case .
qed

lemma map_nth_mid: "map ((!) (xs @ ys @ zs)) [length xs..<length xs + length ys] = ys"
  by (rule nth_equalityI) (simp_all add: nth_append)

section \<open>Construction never fails\<close>

lemma new_ArgumentGraph_Inr:
  assumes "\<And>n. n \<in> set (I @ T @ Z @ G @ N @ F) \<Longrightarrow> fresh n"
  shows "new_ArgumentGraph h I T Z G N F = Inr (graph_of h I T Z G N F)"
proof -
  define g1 where "g1 = (store_nodes I T Z G N F)\<lparr>label_to_node := build_index (store_nodes I T Z G N F)\<rparr>"
  have "fresh (heap g1 a)" if "a \<in> set (all_nodes g1)" for a
  proof -
    from that have "a < length (I @ T @ Z @ G @ N @ F)"
      by (simp add: g1_def all_nodes_store_nodes)
    then have "(I @ T @ Z @ G @ N @ F) ! a \<in> set (I @ T @ Z @ G @ N @ F)"
      by (rule nth_mem)
    then show ?thesis
      using assms by (simp add: g1_def heap_store_nodes)
  qed
  then have "check_constraints h (init_node_references h g1)"
    by (rule check_constraints_init_node_references)
  then show ?thesis
    by (simp add: new_ArgumentGraph_def ArgumentGraph_post_init_def Let_def graph_of_def g1_def)
qed

lemma fresh_new_GraphNode: "fresh (new_GraphNode r)"
  by (simp add: fresh_def new_GraphNode_def no_links_def post_init_def cleanup_attributes_def
      match_constraints_def Let_def)

lemma no_links_fresh: "fresh n \<Longrightarrow> no_links n = n"
  by (cases n) (simp add: fresh_def no_links_def)

lemma new_GraphNode_no_self:
  "label (new_GraphNode r) \<notin> set (parents (new_GraphNode r))"
  "label (new_GraphNode r) \<notin> set (groups (new_GraphNode r))"
  by (simp_all add: new_GraphNode_def post_init_def match_constraints_def discard_def Let_def)

lemma from_dataframes_Inr:
  "from_dataframes h i t z g n f =
     Inr (graph_of h (map new_GraphNode i) (map new_GraphNode t) (map new_GraphNode z)
            (map new_GraphNode g) (map new_GraphNode n) (map new_GraphNode f))"
  unfolding from_dataframes_def
  by (rule new_ArgumentGraph_Inr) (auto simp: fresh_new_GraphNode)

lemma from_dataframes_graph_of:
  assumes "from_dataframes h i t z gs n f = Inr g"
  shows "g = graph_of h (map new_GraphNode i) (map new_GraphNode t) (map new_GraphNode z)
               (map new_GraphNode gs) (map new_GraphNode n) (map new_GraphNode f)"
  using assms by (simp add: from_dataframes_Inr)

section \<open>The graph a construction returns\<close>

lemma graph_all_nodes: "all_nodes (graph_of h I T Z G N F) = [0..<length (I @ T @ Z @ G @ N @ F)]"
  by (simp add: graph_of_def init_node_references_frame all_nodes_store_nodes)

lemma graph_partitions:
  "introduction_nodes (graph_of h I T Z G N F) = [0..<length I]"
  "transition_nodes (graph_of h I T Z G N F) = [length I..<length I + length T]"
  "z_arguments_nodes (graph_of h I T Z G N F) = [length I + length T..<length I + length T + length Z]"
  "graph_group_nodes (graph_of h I T Z G N F) =
     [length I + length T + length Z..<length I + length T + length Z + length G]"
  "nz_arguments_nodes (graph_of h I T Z G N F) =
     [length I + length T + length Z + length G..<length I + length T + length Z + length G + length N]"
  "faq_nodes (graph_of h I T Z G N F) =
     [length I + length T + length Z + length G + length N..<
      length I + length T + length Z + length G + length N + length F]"
  by (simp_all add: graph_of_def init_node_references_def init_node_similars_references_def
        init_node_group_references_def init_node_child_and_parent_references_def
        store_nodes_def Let_def)

lemma graph_raw:
  "label (heap (graph_of h I T Z G N F) x) = label ((I @ T @ Z @ G @ N @ F) ! x)"
  "parents (heap (graph_of h I T Z G N F) x) = parents ((I @ T @ Z @ G @ N @ F) ! x)"
  "groups (heap (graph_of h I T Z G N F) x) = groups ((I @ T @ Z @ G @ N @ F) ! x)"
  "similars (heap (graph_of h I T Z G N F) x) = similars ((I @ T @ Z @ G @ N @ F) ! x)"
  "full_text (heap (graph_of h I T Z G N F) x) = full_text ((I @ T @ Z @ G @ N @ F) ! x)"
  by (simp_all add: graph_of_def init_node_references_raw heap_store_nodes)

lemma graph_index:
  "get_node_for_label (graph_of h I T Z G N F) l = Some b \<longleftrightarrow>
     b < length (I @ T @ Z @ G @ N @ F) \<and> label (heap (graph_of h I T Z G N F) b) = l \<and>
     (\<forall>c. b < c \<and> c < length (I @ T @ Z @ G @ N @ F) \<longrightarrow> label (heap (graph_of h I T Z G N F) c) \<noteq> l)"
  unfolding graph_raw
  by (simp add: graph_of_def init_node_references_frame get_node_for_label_def build_index_def
        all_nodes_store_nodes heap_store_nodes index_upt del: append_assoc length_append)

lemma graph_index_None:
  "get_node_for_label (graph_of h I T Z G N F) l = None \<longleftrightarrow>
     (\<forall>c < length (I @ T @ Z @ G @ N @ F). label (heap (graph_of h I T Z G N F) c) \<noteq> l)"
  unfolding graph_raw
  by (simp add: graph_of_def init_node_references_frame get_node_for_label_def build_index_def
        all_nodes_store_nodes heap_store_nodes index_upt_None del: append_assoc length_append)

lemma graph_links:
  "parent_nodes (heap (graph_of h I T Z G N F) x) =
     own_links (node_key h (heap (graph_of h I T Z G N F)))
       (\<lambda>c. resolve (get_node_for_label (graph_of h I T Z G N F)) (parents (heap (graph_of h I T Z G N F) c)))
       [0..<length (I @ T @ Z @ G @ N @ F)] x (parent_nodes ((I @ T @ Z @ G @ N @ F) ! x))"
  "child_nodes (heap (graph_of h I T Z G N F) x) =
     back_links (node_key h (heap (graph_of h I T Z G N F)))
       (\<lambda>c. resolve (get_node_for_label (graph_of h I T Z G N F)) (parents (heap (graph_of h I T Z G N F) c)))
       [0..<length (I @ T @ Z @ G @ N @ F)] x (child_nodes ((I @ T @ Z @ G @ N @ F) ! x))"
  "group_nodes (heap (graph_of h I T Z G N F) x) =
     own_links (node_key h (heap (graph_of h I T Z G N F)))
       (\<lambda>c. resolve (get_node_for_label (graph_of h I T Z G N F)) (groups (heap (graph_of h I T Z G N F) c)))
       [0..<length (I @ T @ Z @ G @ N @ F)] x (group_nodes ((I @ T @ Z @ G @ N @ F) ! x))"
  "group_member_nodes (heap (graph_of h I T Z G N F) x) =
     back_links (node_key h (heap (graph_of h I T Z G N F)))
       (\<lambda>c. resolve (get_node_for_label (graph_of h I T Z G N F)) (groups (heap (graph_of h I T Z G N F) c)))
       [0..<length (I @ T @ Z @ G @ N @ F)] x (group_member_nodes ((I @ T @ Z @ G @ N @ F) ! x))"
  "similar_nodes (heap (graph_of h I T Z G N F) x) =
     both_links (node_key h (heap (graph_of h I T Z G N F)))
       (\<lambda>c. resolve (get_node_for_label (graph_of h I T Z G N F)) (similars (heap (graph_of h I T Z G N F) c)))
       [0..<length (I @ T @ Z @ G @ N @ F)] x (similar_nodes ((I @ T @ Z @ G @ N @ F) ! x))"
  unfolding graph_of_def init_node_references_key init_node_references_frame init_node_references_raw
  by (simp_all add: init_node_references_links all_nodes_store_nodes heap_store_nodes
        get_node_for_label_def node_key_def del: append_assoc length_append)

lemma graph_partition_nodes:
  assumes "\<And>n. n \<in> set (I @ T @ Z @ G @ N @ F) \<Longrightarrow> fresh n"
  shows "map (\<lambda>a. no_links (heap (graph_of h I T Z G N F) a)) (introduction_nodes (graph_of h I T Z G N F)) = I"
    and "map (\<lambda>a. no_links (heap (graph_of h I T Z G N F) a)) (transition_nodes (graph_of h I T Z G N F)) = T"
    and "map (\<lambda>a. no_links (heap (graph_of h I T Z G N F) a)) (z_arguments_nodes (graph_of h I T Z G N F)) = Z"
    and "map (\<lambda>a. no_links (heap (graph_of h I T Z G N F) a)) (graph_group_nodes (graph_of h I T Z G N F)) = G"
    and "map (\<lambda>a. no_links (heap (graph_of h I T Z G N F) a)) (nz_arguments_nodes (graph_of h I T Z G N F)) = N"
    and "map (\<lambda>a. no_links (heap (graph_of h I T Z G N F) a)) (faq_nodes (graph_of h I T Z G N F)) = F"
proof -
  define ns where "ns = I @ T @ Z @ G @ N @ F"
  have nl: "no_links (heap (graph_of h I T Z G N F) a) = ns ! a" if "a < length ns" for a
  proof -
    from that have "ns ! a \<in> set ns" by (rule nth_mem)
    then have "fresh (ns ! a)" using assms by (simp add: ns_def)
    then show ?thesis
      by (simp add: graph_of_def no_links_init heap_store_nodes no_links_fresh ns_def)
  qed
  have part: "map (\<lambda>a. no_links (heap (graph_of h I T Z G N F) a)) [length xs..<length xs + length ys] = ys"
    if "ns = xs @ ys @ zs" for xs ys zs
  proof -
    have "map (\<lambda>a. no_links (heap (graph_of h I T Z G N F) a)) [length xs..<length xs + length ys]
          = map ((!) ns) [length xs..<length xs + length ys]"
      by (rule map_cong) (simp_all add: nl that)
    also have "\<dots> = ys" unfolding that by (rule map_nth_mid)
    finally show ?thesis .
  qed
  show "map (\<lambda>a. no_links (heap (graph_of h I T Z G N F) a)) (introduction_nodes (graph_of h I T Z G N F)) = I"
    using part [of "[]" I "T @ Z @ G @ N @ F"] by (simp add: graph_partitions ns_def)
  show "map (\<lambda>a. no_links (heap (graph_of h I T Z G N F) a)) (transition_nodes (graph_of h I T Z G N F)) = T"
    using part [of I T "Z @ G @ N @ F"] by (simp add: graph_partitions ns_def)
  show "map (\<lambda>a. no_links (heap (graph_of h I T Z G N F) a)) (z_arguments_nodes (graph_of h I T Z G N F)) = Z"
    using part [of "I @ T" Z "G @ N @ F"] by (simp add: graph_partitions ns_def)
  show "map (\<lambda>a. no_links (heap (graph_of h I T Z G N F) a)) (graph_group_nodes (graph_of h I T Z G N F)) = G"
    using part [of "I @ T @ Z" G "N @ F"] by (simp add: graph_partitions ns_def add.assoc)
  show "map (\<lambda>a. no_links (heap (graph_of h I T Z G N F) a)) (nz_arguments_nodes (graph_of h I T Z G N F)) = N"
    using part [of "I @ T @ Z @ G" N "F"] by (simp add: graph_partitions ns_def add.assoc)
  show "map (\<lambda>a. no_links (heap (graph_of h I T Z G N F) a)) (faq_nodes (graph_of h I T Z G N F)) = F"
    using part [of "I @ T @ Z @ G @ N" F "[]"] by (simp add: graph_partitions ns_def add.assoc)
qed

lemma built_all_nodes:
  assumes "from_dataframes h i t z gs n f = Inr g"
  shows "all_nodes g = [0..<length (i @ t @ z @ gs @ n @ f)]"
  unfolding from_dataframes_graph_of [OF assms] graph_all_nodes by simp

lemma built_node:
  assumes "from_dataframes h i t z gs n f = Inr g" and "a \<in> set (all_nodes g)"
  shows "label (heap g a) = label (new_GraphNode ((i @ t @ z @ gs @ n @ f) ! a))"
    and "parents (heap g a) = parents (new_GraphNode ((i @ t @ z @ gs @ n @ f) ! a))"
    and "groups (heap g a) = groups (new_GraphNode ((i @ t @ z @ gs @ n @ f) ! a))"
    and "similars (heap g a) = similars (new_GraphNode ((i @ t @ z @ gs @ n @ f) ! a))"
    and "full_text (heap g a) = full_text (new_GraphNode ((i @ t @ z @ gs @ n @ f) ! a))"
proof -
  from assms have a: "a < length (i @ t @ z @ gs @ n @ f)"
    by (simp add: built_all_nodes)
  have m: "map new_GraphNode i @ map new_GraphNode t @ map new_GraphNode z @ map new_GraphNode gs
            @ map new_GraphNode n @ map new_GraphNode f = map new_GraphNode (i @ t @ z @ gs @ n @ f)"
    by simp
  show "label (heap g a) = label (new_GraphNode ((i @ t @ z @ gs @ n @ f) ! a))"
    and "parents (heap g a) = parents (new_GraphNode ((i @ t @ z @ gs @ n @ f) ! a))"
    and "groups (heap g a) = groups (new_GraphNode ((i @ t @ z @ gs @ n @ f) ! a))"
    and "similars (heap g a) = similars (new_GraphNode ((i @ t @ z @ gs @ n @ f) ! a))"
    and "full_text (heap g a) = full_text (new_GraphNode ((i @ t @ z @ gs @ n @ f) ! a))"
    unfolding from_dataframes_graph_of [OF assms(1)] graph_raw m
    using a by (simp_all only: nth_map)
qed

lemma built_fresh:
  assumes "from_dataframes h i t z gs n f = Inr g" and "a \<in> set (all_nodes g)"
  shows "fresh ((map new_GraphNode i @ map new_GraphNode t @ map new_GraphNode z @ map new_GraphNode gs
            @ map new_GraphNode n @ map new_GraphNode f) ! a)"
proof -
  from assms have a: "a < length (i @ t @ z @ gs @ n @ f)"
    by (simp add: built_all_nodes)
  have m: "map new_GraphNode i @ map new_GraphNode t @ map new_GraphNode z @ map new_GraphNode gs
            @ map new_GraphNode n @ map new_GraphNode f = map new_GraphNode (i @ t @ z @ gs @ n @ f)"
    by simp
  show ?thesis unfolding m using a by (simp only: nth_map fresh_new_GraphNode)
qed

lemma built_no_self:
  assumes "from_dataframes h i t z gs n f = Inr g" and "a \<in> set (all_nodes g)"
  shows "label (heap g a) \<notin> set (parents (heap g a))"
    and "label (heap g a) \<notin> set (groups (heap g a))"
  by (simp_all only: built_node [OF assms] new_GraphNode_no_self not_False_eq_True)

lemma built_check:
  assumes "from_dataframes h i t z gs n f = Inr g"
  shows "check_constraints h g"
  using assms
  by (auto simp: from_dataframes_def new_ArgumentGraph_def ArgumentGraph_post_init_def Let_def
      split: if_splits)

lemma built_node_constraints:
  assumes "from_dataframes h i t z gs n f = Inr g" and "a \<in> set (all_nodes g)"
  shows "node_constraints h (heap g) a"
  using built_check [OF assms(1)] assms(2) by (simp add: check_constraints_def)

lemma built_index:
  assumes "from_dataframes h i t z gs n f = Inr g"
  shows "get_node_for_label g l = Some b \<longleftrightarrow>
           b \<in> set (all_nodes g) \<and> label (heap g b) = l \<and>
           (\<forall>c \<in> set (all_nodes g). b < c \<longrightarrow> label (heap g c) \<noteq> l)"
  unfolding from_dataframes_graph_of [OF assms] graph_index graph_all_nodes
  by auto

lemma built_index_None:
  assumes "from_dataframes h i t z gs n f = Inr g"
  shows "get_node_for_label g l = None \<longleftrightarrow> (\<forall>c \<in> set (all_nodes g). label (heap g c) \<noteq> l)"
  unfolding from_dataframes_graph_of [OF assms] graph_index_None graph_all_nodes
  by auto

lemma built_index_eq:
  assumes "from_dataframes h i t z gs n f = Inr g"
  shows "get_node_for_label g = map_of (rev (map (\<lambda>a. (label (heap g a), a)) (all_nodes g)))"
  unfolding from_dataframes_graph_of [OF assms] graph_all_nodes graph_raw
  by (rule ext)
     (simp add: graph_of_def init_node_references_frame get_node_for_label_def build_index_def
        all_nodes_store_nodes heap_store_nodes index_map_of del: append_assoc length_append)

lemma built_resolve:
  assumes "from_dataframes h i t z gs n f = Inr g"
      and "p \<in> set (resolve (get_node_for_label g) ls)"
  shows "p \<in> set (all_nodes g)" and "label (heap g p) \<in> set ls"
    and "get_node_for_label g (label (heap g p)) = Some p"
  using assms(2) by (auto simp: resolve_iff built_index [OF assms(1)])

lemma built_parent_nodes:
  assumes "from_dataframes h i t z gs n f = Inr g" and "a \<in> set (all_nodes g)"
  shows "parent_nodes (heap g a) =
           set_update (node_key h (heap g)) (resolve (get_node_for_label g) (parents (heap g a))) []"
proof -
  from built_fresh [OF assms] have "parent_nodes ((map new_GraphNode i @ map new_GraphNode t @ map new_GraphNode z @ map new_GraphNode gs
            @ map new_GraphNode n @ map new_GraphNode f) ! a) = []"
    by (simp add: fresh_def)
  moreover from assms have "a \<in> set [0..<length (i @ t @ z @ gs @ n @ f)]"
    by (simp add: built_all_nodes)
  ultimately show ?thesis
    unfolding from_dataframes_graph_of [OF assms(1)] 
    by (subst graph_links) (simp add: own_links_distinct)
qed

lemma built_group_nodes:
  assumes "from_dataframes h i t z gs n f = Inr g" and "a \<in> set (all_nodes g)"
  shows "group_nodes (heap g a) =
           set_update (node_key h (heap g)) (resolve (get_node_for_label g) (groups (heap g a))) []"
proof -
  from built_fresh [OF assms] have "group_nodes ((map new_GraphNode i @ map new_GraphNode t @ map new_GraphNode z @ map new_GraphNode gs
            @ map new_GraphNode n @ map new_GraphNode f) ! a) = []"
    by (simp add: fresh_def)
  moreover from assms have "a \<in> set [0..<length (i @ t @ z @ gs @ n @ f)]"
    by (simp add: built_all_nodes)
  ultimately show ?thesis
    unfolding from_dataframes_graph_of [OF assms(1)] 
    by (subst graph_links) (simp add: own_links_distinct)
qed

lemma built_child_nodes:
  assumes "from_dataframes h i t z gs n f = Inr g" and "a \<in> set (all_nodes g)"
  shows "child_nodes (heap g a) =
           back_links (node_key h (heap g)) (\<lambda>c. resolve (get_node_for_label g) (parents (heap g c)))
             (all_nodes g) a []"
proof -
  from built_fresh [OF assms] have "child_nodes ((map new_GraphNode i @ map new_GraphNode t @ map new_GraphNode z @ map new_GraphNode gs
            @ map new_GraphNode n @ map new_GraphNode f) ! a) = []"
    by (simp add: fresh_def)
  then show ?thesis
    unfolding from_dataframes_graph_of [OF assms(1)] graph_all_nodes
    by (subst graph_links) simp
qed

lemma built_group_member_nodes:
  assumes "from_dataframes h i t z gs n f = Inr g" and "a \<in> set (all_nodes g)"
  shows "group_member_nodes (heap g a) =
           back_links (node_key h (heap g)) (\<lambda>c. resolve (get_node_for_label g) (groups (heap g c)))
             (all_nodes g) a []"
proof -
  from built_fresh [OF assms] have "group_member_nodes ((map new_GraphNode i @ map new_GraphNode t @ map new_GraphNode z @ map new_GraphNode gs
            @ map new_GraphNode n @ map new_GraphNode f) ! a) = []"
    by (simp add: fresh_def)
  then show ?thesis
    unfolding from_dataframes_graph_of [OF assms(1)] graph_all_nodes
    by (subst graph_links) simp
qed

lemma built_similar_nodes:
  assumes "from_dataframes h i t z gs n f = Inr g" and "a \<in> set (all_nodes g)"
  shows "similar_nodes (heap g a) =
           both_links (node_key h (heap g)) (\<lambda>c. resolve (get_node_for_label g) (similars (heap g c)))
             (all_nodes g) a []"
proof -
  from built_fresh [OF assms] have "similar_nodes ((map new_GraphNode i @ map new_GraphNode t @ map new_GraphNode z @ map new_GraphNode gs
            @ map new_GraphNode n @ map new_GraphNode f) ! a) = []"
    by (simp add: fresh_def)
  then show ?thesis
    unfolding from_dataframes_graph_of [OF assms(1)] graph_all_nodes
    by (subst graph_links) simp
qed

lemma built_parent_stored:
  assumes "from_dataframes h i t z gs n f = Inr g" and "a \<in> set (all_nodes g)"
      and "p \<in> set (parent_nodes (heap g a))"
  shows "p \<in> set (resolve (get_node_for_label g) (parents (heap g a)))"
  using assms(3) set_update_subset [of "node_key h (heap g)" "resolve (get_node_for_label g) (parents (heap g a))" "[]"]
  unfolding built_parent_nodes [OF assms(1,2)] by auto

lemma built_group_stored:
  assumes "from_dataframes h i t z gs n f = Inr g" and "a \<in> set (all_nodes g)"
      and "p \<in> set (group_nodes (heap g a))"
  shows "p \<in> set (resolve (get_node_for_label g) (groups (heap g a)))"
  using assms(3) set_update_subset [of "node_key h (heap g)" "resolve (get_node_for_label g) (groups (heap g a))" "[]"]
  unfolding built_group_nodes [OF assms(1,2)] by auto

lemma built_child_stored:
  assumes "from_dataframes h i t z gs n f = Inr g" and "p \<in> set (all_nodes g)"
      and "c \<in> set (child_nodes (heap g p))"
  shows "c \<in> set (all_nodes g)" and "p \<in> set (resolve (get_node_for_label g) (parents (heap g c)))"
  using assms(3) unfolding built_child_nodes [OF assms(1,2)]
  by (auto dest: back_links_stored)

lemma built_member_stored:
  assumes "from_dataframes h i t z gs n f = Inr g" and "p \<in> set (all_nodes g)"
      and "c \<in> set (group_member_nodes (heap g p))"
  shows "c \<in> set (all_nodes g)" and "p \<in> set (resolve (get_node_for_label g) (groups (heap g c)))"
  using assms(3) unfolding built_group_member_nodes [OF assms(1,2)]
  by (auto dest: back_links_stored)

lemma built_similar_stored:
  assumes "from_dataframes h i t z gs n f = Inr g" and "a \<in> set (all_nodes g)"
      and "s \<in> set (similar_nodes (heap g a))"
  shows "s \<in> set (resolve (get_node_for_label g) (similars (heap g a))) \<or>
         (s \<in> set (all_nodes g) \<and> a \<in> set (resolve (get_node_for_label g) (similars (heap g s))))"
  using assms(3) unfolding built_similar_nodes [OF assms(1,2)]
  by (auto dest: both_links_stored)

lemma built_links_valid:
  assumes "from_dataframes h i t z gs n f = Inr g" and "a \<in> set (all_nodes g)"
  shows "set (parent_nodes (heap g a)) \<subseteq> set (all_nodes g)"
    and "set (child_nodes (heap g a)) \<subseteq> set (all_nodes g)"
    and "set (group_nodes (heap g a)) \<subseteq> set (all_nodes g)"
    and "set (group_member_nodes (heap g a)) \<subseteq> set (all_nodes g)"
    and "set (similar_nodes (heap g a)) \<subseteq> set (all_nodes g)"
  using built_parent_stored [OF assms] built_group_stored [OF assms] built_child_stored(1) [OF assms]
    built_member_stored(1) [OF assms] built_similar_stored [OF assms] built_resolve(1) [OF assms(1)]
  by blast+

lemma built_no_self_links:
  assumes "from_dataframes h i t z gs n f = Inr g" and "a \<in> set (all_nodes g)"
  shows "a \<notin> set (parent_nodes (heap g a))" and "a \<notin> set (child_nodes (heap g a))"
    and "a \<notin> set (group_nodes (heap g a))" and "a \<notin> set (group_member_nodes (heap g a))"
proof -
  have p: "a \<notin> set (resolve (get_node_for_label g) (parents (heap g a)))"
    using built_resolve(2) [OF assms(1), of a "parents (heap g a)"] built_no_self(1) [OF assms]
    by blast
  have q: "a \<notin> set (resolve (get_node_for_label g) (groups (heap g a)))"
    using built_resolve(2) [OF assms(1), of a "groups (heap g a)"] built_no_self(2) [OF assms]
    by blast
  show "a \<notin> set (parent_nodes (heap g a))"
    using p built_parent_stored [OF assms] by blast
  show "a \<notin> set (child_nodes (heap g a))"
    using p built_child_stored(2) [OF assms] by blast
  show "a \<notin> set (group_nodes (heap g a))"
    using q built_group_stored [OF assms] by blast
  show "a \<notin> set (group_member_nodes (heap g a))"
    using q built_member_stored(2) [OF assms] by blast
qed

lemma built_partitions:
  assumes g: "from_dataframes h i t z gs n f = Inr g"
  shows "map (\<lambda>a. no_links (heap g a)) (introduction_nodes g) = map new_GraphNode i"
    and "map (\<lambda>a. no_links (heap g a)) (transition_nodes g) = map new_GraphNode t"
    and "map (\<lambda>a. no_links (heap g a)) (z_arguments_nodes g) = map new_GraphNode z"
    and "map (\<lambda>a. no_links (heap g a)) (graph_group_nodes g) = map new_GraphNode gs"
    and "map (\<lambda>a. no_links (heap g a)) (nz_arguments_nodes g) = map new_GraphNode n"
    and "map (\<lambda>a. no_links (heap g a)) (faq_nodes g) = map new_GraphNode f"
  unfolding from_dataframes_graph_of [OF g]
  by (rule graph_partition_nodes; auto simp: fresh_new_GraphNode)+

lemma built_faq_nodes:
  assumes "from_dataframes h i t z gs n f = Inr g"
  shows "faq_nodes g = [length (i @ t @ z @ gs @ n)..<length (i @ t @ z @ gs @ n @ f)]"
  unfolding from_dataframes_graph_of [OF assms] graph_partitions by (simp add: add.assoc)

lemma built_faq_subset:
  assumes "from_dataframes h i t z gs n f = Inr g"
  shows "set (faq_nodes g) \<subseteq> set (all_nodes g)"
  by (auto simp: all_nodes_def)

section \<open>Evaluation on given rows\<close>

text \<open>
  The nodes, the index and the link sets of a built graph, written in terms of the rows
  alone, and the definitions that evaluate them on given rows.
\<close>

lemma built_eval:
  assumes g: "from_dataframes h i t z gs n f = Inr g"
      and ns: "ns = map new_GraphNode (i @ t @ z @ gs @ n @ f)"
  shows "all_nodes g = [0..<length ns]"
    and "get_node_for_label g = map_of (rev (map (\<lambda>a. (label (ns ! a), a)) [0..<length ns]))"
    and "label (heap g a) = label (ns ! a)"
    and "parents (heap g a) = parents (ns ! a)"
    and "groups (heap g a) = groups (ns ! a)"
    and "similars (heap g a) = similars (ns ! a)"
    and "a < length ns \<Longrightarrow> parent_nodes (heap g a) =
           set_update (\<lambda>b. h (label (ns ! b)))
             (resolve (map_of (rev (map (\<lambda>a. (label (ns ! a), a)) [0..<length ns]))) (parents (ns ! a))) []"
    and "a < length ns \<Longrightarrow> child_nodes (heap g a) =
           back_links (\<lambda>b. h (label (ns ! b)))
             (\<lambda>c. resolve (map_of (rev (map (\<lambda>a. (label (ns ! a), a)) [0..<length ns]))) (parents (ns ! c)))
             [0..<length ns] a []"
    and "a < length ns \<Longrightarrow> group_nodes (heap g a) =
           set_update (\<lambda>b. h (label (ns ! b)))
             (resolve (map_of (rev (map (\<lambda>a. (label (ns ! a), a)) [0..<length ns]))) (groups (ns ! a))) []"
    and "a < length ns \<Longrightarrow> group_member_nodes (heap g a) =
           back_links (\<lambda>b. h (label (ns ! b)))
             (\<lambda>c. resolve (map_of (rev (map (\<lambda>a. (label (ns ! a), a)) [0..<length ns]))) (groups (ns ! c)))
             [0..<length ns] a []"
    and "a < length ns \<Longrightarrow> similar_nodes (heap g a) =
           both_links (\<lambda>b. h (label (ns ! b)))
             (\<lambda>c. resolve (map_of (rev (map (\<lambda>a. (label (ns ! a), a)) [0..<length ns]))) (similars (ns ! c)))
             [0..<length ns] a []"
proof -
  have m: "map new_GraphNode i @ map new_GraphNode t @ map new_GraphNode z @ map new_GraphNode gs
            @ map new_GraphNode n @ map new_GraphNode f = ns"
    by (simp add: ns)
  show all: "all_nodes g = [0..<length ns]"
    by (simp add: built_all_nodes [OF g] ns)
  show lab: "label (heap g a) = label (ns ! a)" for a
    unfolding from_dataframes_graph_of [OF g] graph_raw m ..
  show par: "parents (heap g a) = parents (ns ! a)" for a
    unfolding from_dataframes_graph_of [OF g] graph_raw m ..
  show grp: "groups (heap g a) = groups (ns ! a)" for a
    unfolding from_dataframes_graph_of [OF g] graph_raw m ..
  show sim: "similars (heap g a) = similars (ns ! a)" for a
    unfolding from_dataframes_graph_of [OF g] graph_raw m ..
  show idx: "get_node_for_label g = map_of (rev (map (\<lambda>a. (label (ns ! a), a)) [0..<length ns]))"
    by (simp only: built_index_eq [OF g] all lab)
  have key: "node_key h (heap g) = (\<lambda>b. h (label (ns ! b)))"
    by (rule ext) (simp add: node_key_def GraphNode_hash_def lab)
  show "a < length ns \<Longrightarrow> parent_nodes (heap g a) =
           set_update (\<lambda>b. h (label (ns ! b)))
             (resolve (map_of (rev (map (\<lambda>a. (label (ns ! a), a)) [0..<length ns]))) (parents (ns ! a))) []"
    by (simp add: built_parent_nodes [OF g] all key idx [symmetric] par)
  show "a < length ns \<Longrightarrow> group_nodes (heap g a) =
           set_update (\<lambda>b. h (label (ns ! b)))
             (resolve (map_of (rev (map (\<lambda>a. (label (ns ! a), a)) [0..<length ns]))) (groups (ns ! a))) []"
    by (simp add: built_group_nodes [OF g] all key idx [symmetric] grp)
  show "a < length ns \<Longrightarrow> child_nodes (heap g a) =
           back_links (\<lambda>b. h (label (ns ! b)))
             (\<lambda>c. resolve (map_of (rev (map (\<lambda>a. (label (ns ! a), a)) [0..<length ns]))) (parents (ns ! c)))
             [0..<length ns] a []"
    by (simp add: built_child_nodes [OF g] all key idx [symmetric] par)
  show "a < length ns \<Longrightarrow> group_member_nodes (heap g a) =
           back_links (\<lambda>b. h (label (ns ! b)))
             (\<lambda>c. resolve (map_of (rev (map (\<lambda>a. (label (ns ! a), a)) [0..<length ns]))) (groups (ns ! c)))
             [0..<length ns] a []"
    by (simp add: built_group_member_nodes [OF g] all key idx [symmetric] grp)
  show "a < length ns \<Longrightarrow> similar_nodes (heap g a) =
           both_links (\<lambda>b. h (label (ns ! b)))
             (\<lambda>c. resolve (map_of (rev (map (\<lambda>a. (label (ns ! a), a)) [0..<length ns]))) (similars (ns ! c)))
             [0..<length ns] a []"
    by (simp add: built_similar_nodes [OF g] all key idx [symmetric] sim)
qed

lemmas ev_node = new_GraphNode_def no_links_def post_init_def cleanup_attributes_def
  match_constraints_def node_args_def strip_def is_space_def discard_def Let_def

lemmas ev_links = resolve_def set_update_def set_add_def set_contains_def
  back_links_def both_links_def

section \<open>Pairs of question and answer; ancestors on a cycle\<close>

lemma pairs_for_answer:
  "distinct xs \<Longrightarrow>
     filter (\<lambda>qr. snd qr = r) (List.map_filter (\<lambda>a. if c a then None else Some (q a, a)) (filter P xs))
       = (if r \<in> set xs \<and> P r \<and> \<not> c r then [(q r, r)] else [])"
  by (induction xs) auto

lemma faq_node_pairs_answer:
  "(q, r) \<in> set (faq_node_pairs g) \<Longrightarrow> r \<in> set (faq_nodes g) \<and> has_parent_labels (heap g r)"
  by (auto simp: faq_node_pairs_def faq_answer_nodes_def List.map_filter_def split: if_splits)

lemma ancestor_nodes_two_cycle:
  "parent_nodes (hp a) = [b] \<Longrightarrow> parent_nodes (hp b) = [a] \<Longrightarrow>
     ancestor_nodes d h hp a = Inl RecursionError"
proof (induction d arbitrary: a b)
  case 0
  show ?case by simp
next
  case (Suc d)
  from Suc.prems have "ancestor_nodes d h hp b = Inl RecursionError"
    by (intro Suc.IH [of b a])
  with Suc.prems show ?case
    by (simp add: set_contains_def)
qed

lemma super_group_nodes_two_cycle:
  "group_nodes (hp a) = [b] \<Longrightarrow> group_nodes (hp b) = [a] \<Longrightarrow>
     super_group_nodes d h hp a = Inl RecursionError"
proof (induction d arbitrary: a b)
  case 0
  show ?case by simp
next
  case (Suc d)
  from Suc.prems have "super_group_nodes d h hp b = Inl RecursionError"
    by (intro Suc.IH [of b a])
  with Suc.prems show ?case
    by (simp add: set_contains_def)
qed

section \<open>Claims about single nodes\<close>

text \<open>
  Strings are infinitely many and hash values are not: whatever \<open>hash\<close> is, two
  different labels share a hash.
\<close>

lemma hash_collision: "\<exists>s t. s \<noteq> t \<and> (h :: string \<Rightarrow> py_hash) s = h t"
proof (rule ccontr)
  assume "\<not> (\<exists>s t. s \<noteq> t \<and> h s = h t)"
  then have "inj h" by (auto simp: inj_on_def)
  moreover have "finite (range h)" by (rule finite_subset [of _ UNIV]) simp_all
  ultimately have "finite (UNIV :: string set)" by (rule finite_imageD [rotated])
  then show False by (simp add: infinite_UNIV_listI)
qed

text \<open>
  C7 as stated (two nodes are equal if and only if their labels are equal) fails:
  \<open>__eq__\<close> compares hashes, so for no hash function is equality of nodes the same as
  equality of labels.
\<close>

theorem GraphNode_eq_label_counterexample:
  "\<not> (\<exists>h. \<forall>a b. GraphNode_eq h a b \<longleftrightarrow> label a = label b)"
proof
  assume "\<exists>h. \<forall>a b. GraphNode_eq h a b \<longleftrightarrow> label a = label b"
  then obtain h where eq: "\<And>a b. GraphNode_eq h a b \<longleftrightarrow> label a = label b" by blast
  obtain s t where st: "s \<noteq> t" "h s = h t" using hash_collision [of h] by blast
  have "GraphNode_eq h (node_args s [] [] [] []) (node_args t [] [] [] [])"
    using st by (simp add: GraphNode_eq_def GraphNode_hash_def node_args_def)
  then have "label (node_args s [] [] [] []) = label (node_args t [] [] [] [])"
    by (simp only: eq)
  with st show False by (simp add: node_args_def)
qed

text \<open>
  C7, amended.  Two nodes are equal if and only if the hashes of their labels are
  equal; nodes of equal labels are therefore equal, and the hash of a node is
  determined by its label alone.
\<close>

theorem GraphNode_eq_hash:
  "(GraphNode_eq h a b \<longleftrightarrow> h (label a) = h (label b)) \<and>
   (label a = label b \<longrightarrow> GraphNode_eq h a b) \<and>
   (label a = label b \<longrightarrow> GraphNode_hash h a = GraphNode_hash h b)"
  by (simp add: GraphNode_eq_def GraphNode_hash_def)

theorem GraphNode_eq_hash_witness:
  "\<forall>h. GraphNode_eq h (node_args ''Z.P1'' ''one'' [] [] []) (node_args ''Z.P1'' ''two'' [''Z.P2''] [] []) \<and>
       GraphNode_hash h (node_args ''Z.P1'' ''one'' [] [] [])
         = GraphNode_hash h (node_args ''Z.P1'' ''two'' [''Z.P2''] [] [])"
proof
  fix h
  show "GraphNode_eq h (node_args ''Z.P1'' ''one'' [] [] []) (node_args ''Z.P1'' ''two'' [''Z.P2''] [] []) \<and>
       GraphNode_hash h (node_args ''Z.P1'' ''one'' [] [] [])
         = GraphNode_hash h (node_args ''Z.P1'' ''two'' [''Z.P2''] [] [])"
    using GraphNode_eq_hash [of h "node_args ''Z.P1'' ''one'' [] [] []" "node_args ''Z.P1'' ''two'' [''Z.P2''] [] []"]
    by (simp add: node_args_def)
qed

text \<open>
  C10.  \<open>as_tuple\<close> is partial: on every node whose \<open>groups\<close> set is empty it raises
  \<open>StopIteration\<close> (\<open>next\<close> on an empty iterator), and it returns a tuple exactly when
  the node has at least one group label; the tuple then holds the label, the summary,
  the paraphrase, the full text, the rating and the group label the iteration gives
  first.
\<close>

theorem as_tuple_partial:
  "(groups n = [] \<longrightarrow> as_tuple n = Inl StopIteration) \<and>
   ((\<exists>t. as_tuple n = Inr t) \<longleftrightarrow> groups n \<noteq> []) \<and>
   (\<forall>g gs. groups n = g # gs \<longrightarrow>
      as_tuple n = Inr (label n, summary n, paraphrase n, full_text n, rating n, g))"
  by (cases "groups n") (simp_all add: as_tuple_def next_iter_def)

theorem as_tuple_partial_witness:
  "as_tuple (new_GraphNode (node_args ''Z.P1'' ''text'' [] [] [])) = Inl StopIteration \<and>
   as_tuple (new_GraphNode (node_args ''Z.P1'' ''text'' [] [''G1''] []))
     = Inr (''Z.P1'', [], [], ''text'', - 1, ''G1'')"
  using as_tuple_partial [of "new_GraphNode (node_args ''Z.P1'' ''text'' [] [] [])"]
        as_tuple_partial [of "new_GraphNode (node_args ''Z.P1'' ''text'' [] [''G1''] [])"]
  by (simp add: new_GraphNode_def no_links_def post_init_def cleanup_attributes_def
        match_constraints_def node_args_def Let_def strip_def is_space_def)

section \<open>Claims about the graph collection\<close>

text \<open>
  C1 as stated fails where two nodes share a label.  In the graph below nodes 0 and 1
  carry one label and name the label of nodes 2 and 3 as parent.  Node 2 is in the
  \<open>parent_nodes\<close> of node 0 (it equals the stored node 3), but node 0 is not in the
  \<open>child_nodes\<close> of node 2; and node 3 is stored in the \<open>parent_nodes\<close> of node 1, but
  node 1 is not stored in the \<open>child_nodes\<close> of node 3.
\<close>

theorem link_symmetry_duplicate_counterexample:
  "\<forall>h. \<exists>g. from_dataframes h [] [] [node_args ''Z.K1'' ''one'' [''Z.P1''] [] [],
                                    node_args ''Z.K1'' ''two'' [''Z.P1''] [] [],
                                    node_args ''Z.P1'' ''three'' [] [] [],
                                    node_args ''Z.P1'' ''four'' [] [] []] [] [] [] = Inr g \<and>
         set_contains (node_key h (heap g)) (parent_nodes (heap g 0)) 2 \<and>
         \<not> set_contains (node_key h (heap g)) (child_nodes (heap g 2)) 0 \<and>
         3 \<in> set (parent_nodes (heap g 1)) \<and> 1 \<notin> set (child_nodes (heap g 3))"
proof
  fix h
  obtain g where g: "from_dataframes h [] [] [node_args ''Z.K1'' ''one'' [''Z.P1''] [] [],
                                    node_args ''Z.K1'' ''two'' [''Z.P1''] [] [],
                                    node_args ''Z.P1'' ''three'' [] [] [],
                                    node_args ''Z.P1'' ''four'' [] [] []] [] [] [] = Inr g"
    by (simp add: from_dataframes_Inr)
  note e = built_eval [OF g refl]
  have p0: "parent_nodes (heap g 0) = [3]" by (simp add: e(7) ev_node ev_links upt_rec)
  have p1: "parent_nodes (heap g 1) = [3]" by (simp add: e(7) ev_node ev_links upt_rec)
  have c2: "child_nodes (heap g 2) = []" by (simp add: e(8) ev_node ev_links upt_rec)
  have c3: "child_nodes (heap g 3) = [0]" by (simp add: e(8) ev_node ev_links upt_rec)
  have k: "node_key h (heap g) 3 = node_key h (heap g) 2"
    by (simp add: node_key_def GraphNode_hash_def e(3) ev_node)
  have "set_contains (node_key h (heap g)) (parent_nodes (heap g 0)) 2"
    by (simp add: p0 set_contains_def k)
  moreover have "\<not> set_contains (node_key h (heap g)) (child_nodes (heap g 2)) 0"
    by (simp add: c2 set_contains_def)
  moreover have "3 \<in> set (parent_nodes (heap g 1))" using p1 by simp
  moreover have "1 \<notin> set (child_nodes (heap g 3))" using c3 by simp
  ultimately
  show "\<exists>g. from_dataframes h [] [] [node_args ''Z.K1'' ''one'' [''Z.P1''] [] [],
                                    node_args ''Z.K1'' ''two'' [''Z.P1''] [] [],
                                    node_args ''Z.P1'' ''three'' [] [] [],
                                    node_args ''Z.P1'' ''four'' [] [] []] [] [] [] = Inr g \<and>
         set_contains (node_key h (heap g)) (parent_nodes (heap g 0)) 2 \<and>
         \<not> set_contains (node_key h (heap g)) (child_nodes (heap g 2)) 0 \<and>
         3 \<in> set (parent_nodes (heap g 1)) \<and> 1 \<notin> set (child_nodes (heap g 3))"
    using g by blast
qed

text \<open>
  C1, amended.  On every built graph each stored link has its back link: for every
  node \<open>a\<close> and every node stored in a link set of \<open>a\<close>, \<open>a\<close> is in the opposite link set
  of that node (this is what the five assertions check).  When the hashes of the
  labels of the nodes are pairwise different, the three equivalences hold for all
  nodes of the graph, with membership as the \<open>in\<close> of the sets.
\<close>

theorem link_symmetry:
  assumes "from_dataframes h i t z gs n f = Inr g"
  shows "check_constraints h g \<and>
         (distinct (map (node_key h (heap g)) (all_nodes g)) \<longrightarrow>
            (\<forall>a \<in> set (all_nodes g). \<forall>p \<in> set (all_nodes g).
               (set_contains (node_key h (heap g)) (parent_nodes (heap g a)) p \<longleftrightarrow>
                set_contains (node_key h (heap g)) (child_nodes (heap g p)) a) \<and>
               (set_contains (node_key h (heap g)) (group_nodes (heap g a)) p \<longleftrightarrow>
                set_contains (node_key h (heap g)) (group_member_nodes (heap g p)) a) \<and>
               (set_contains (node_key h (heap g)) (similar_nodes (heap g a)) p \<longleftrightarrow>
                set_contains (node_key h (heap g)) (similar_nodes (heap g p)) a)))"
proof (intro conjI impI ballI)
  show "check_constraints h g" by (rule built_check [OF assms])
next
  fix a p
  assume d: "distinct (map (node_key h (heap g)) (all_nodes g))"
     and a: "a \<in> set (all_nodes g)" and p: "p \<in> set (all_nodes g)"
  define k where "k = node_key h (heap g)"
  from d have inj: "inj_on k (set (all_nodes g))"
    by (simp add: distinct_map k_def)
  note va = built_links_valid [OF assms a] and vp = built_links_valid [OF assms p]
  note ca = built_node_constraints [OF assms a, unfolded node_constraints_def, folded k_def]
  note cp = built_node_constraints [OF assms p, unfolded node_constraints_def, folded k_def]
  have st: "set_contains k S x \<longleftrightarrow> x \<in> set S" if "set S \<subseteq> set (all_nodes g)" "x \<in> set (all_nodes g)" for S x
    using inj that by (rule set_contains_inj)
  show "set_contains k (parent_nodes (heap g a)) p \<longleftrightarrow> set_contains k (child_nodes (heap g p)) a"
    using ca cp by (auto simp: st va vp a p)
  show "set_contains k (group_nodes (heap g a)) p \<longleftrightarrow> set_contains k (group_member_nodes (heap g p)) a"
    using ca cp by (auto simp: st va vp a p)
  show "set_contains k (similar_nodes (heap g a)) p \<longleftrightarrow> set_contains k (similar_nodes (heap g p)) a"
    using ca cp by (auto simp: st va vp a p)
qed

theorem link_symmetry_witness:
  "\<exists>g. from_dataframes (\<lambda>s. if s = ''Z.P1'' then 0 else 1) [] []
           [node_args ''Z.P1'' ''one'' [] [] [], node_args ''Z.K1'' ''two'' [''Z.P1''] [] []] [] [] [] = Inr g \<and>
       distinct (map (node_key (\<lambda>s. if s = ''Z.P1'' then 0 else 1) (heap g)) (all_nodes g)) \<and>
       set_contains (node_key (\<lambda>s. if s = ''Z.P1'' then 0 else 1) (heap g)) (parent_nodes (heap g 1)) 0 \<and>
       set_contains (node_key (\<lambda>s. if s = ''Z.P1'' then 0 else 1) (heap g)) (child_nodes (heap g 0)) 1 \<and>
       \<not> set_contains (node_key (\<lambda>s. if s = ''Z.P1'' then 0 else 1) (heap g)) (parent_nodes (heap g 0)) 1 \<and>
       \<not> set_contains (node_key (\<lambda>s. if s = ''Z.P1'' then 0 else 1) (heap g)) (child_nodes (heap g 1)) 0"
proof -
  define h :: "string \<Rightarrow> py_hash" where "h = (\<lambda>s. if s = ''Z.P1'' then 0 else 1)"
  obtain g where g: "from_dataframes h [] []
      [node_args ''Z.P1'' ''one'' [] [] [], node_args ''Z.K1'' ''two'' [''Z.P1''] [] []] [] [] [] = Inr g"
    by (simp add: from_dataframes_Inr)
  note e = built_eval [OF g refl]
  have all: "all_nodes g = [0, Suc 0]" by (simp add: e(1) upt_rec)
  have k0: "node_key h (heap g) 0 = 0" and k1: "node_key h (heap g) (Suc 0) = 1"
    by (simp_all add: node_key_def GraphNode_hash_def e(3) ev_node h_def)
  have d: "distinct (map (node_key h (heap g)) (all_nodes g))"
    by (simp add: all k0 k1)
  have p0: "parent_nodes (heap g 0) = []" by (simp add: e(7) ev_node ev_links upt_rec)
  have p1: "parent_nodes (heap g (Suc 0)) = [0]" by (simp add: e(7) ev_node ev_links upt_rec)
  from link_symmetry [OF g] d
  have sym: "\<And>a p. a \<in> set (all_nodes g) \<Longrightarrow> p \<in> set (all_nodes g) \<Longrightarrow>
               set_contains (node_key h (heap g)) (parent_nodes (heap g a)) p \<longleftrightarrow>
               set_contains (node_key h (heap g)) (child_nodes (heap g p)) a"
    by blast
  have a1: "set_contains (node_key h (heap g)) (parent_nodes (heap g (Suc 0))) 0"
    by (simp add: p1 set_contains_def)
  have a2: "\<not> set_contains (node_key h (heap g)) (parent_nodes (heap g 0)) (Suc 0)"
    by (simp add: p0 set_contains_def)
  from a1 sym [of "Suc 0" 0] have b1: "set_contains (node_key h (heap g)) (child_nodes (heap g 0)) (Suc 0)"
    by (simp add: all)
  from a2 sym [of 0 "Suc 0"] have b2: "\<not> set_contains (node_key h (heap g)) (child_nodes (heap g (Suc 0))) 0"
    by (simp add: all)
  from g d a1 a2 b1 b2 show ?thesis
    unfolding h_def by auto
qed

text \<open>
  C2.  On the graph of two nodes that name each other as parent, \<open>ancestor_nodes\<close> of
  either node returns no set: whatever the number of nested calls the interpreter
  allows, the evaluation ends in \<open>RecursionError\<close>.  The set of collected nodes is local
  to each call, so the call on the parent starts again from the empty set.
\<close>

theorem ancestor_nodes_cycle_never_returns:
  "\<forall>h. \<exists>g. from_dataframes h [] [] [node_args ''Z.P1'' ''one'' [''Z.P2''] [] [],
                                    node_args ''Z.P2'' ''two'' [''Z.P1''] [] []] [] [] [] = Inr g \<and>
         parent_nodes (heap g 0) = [1] \<and> parent_nodes (heap g 1) = [0] \<and>
         (\<forall>d. ancestor_nodes d h (heap g) 0 = Inl RecursionError \<and>
              ancestor_nodes d h (heap g) 1 = Inl RecursionError)"
proof
  fix h
  obtain g where g: "from_dataframes h [] [] [node_args ''Z.P1'' ''one'' [''Z.P2''] [] [],
                                    node_args ''Z.P2'' ''two'' [''Z.P1''] [] []] [] [] [] = Inr g"
    by (simp add: from_dataframes_Inr)
  note e = built_eval [OF g refl]
  have p0: "parent_nodes (heap g 0) = [1]" by (simp add: e(7) ev_node ev_links upt_rec)
  have p1: "parent_nodes (heap g 1) = [0]" by (simp add: e(7) ev_node ev_links upt_rec)
  have "ancestor_nodes d h (heap g) 0 = Inl RecursionError" for d
    using p0 p1 by (rule ancestor_nodes_two_cycle)
  moreover have "ancestor_nodes d h (heap g) 1 = Inl RecursionError" for d
    using p1 p0 by (rule ancestor_nodes_two_cycle)
  ultimately
  show "\<exists>g. from_dataframes h [] [] [node_args ''Z.P1'' ''one'' [''Z.P2''] [] [],
                                    node_args ''Z.P2'' ''two'' [''Z.P1''] [] []] [] [] [] = Inr g \<and>
         parent_nodes (heap g 0) = [1] \<and> parent_nodes (heap g 1) = [0] \<and>
         (\<forall>d. ancestor_nodes d h (heap g) 0 = Inl RecursionError \<and>
              ancestor_nodes d h (heap g) 1 = Inl RecursionError)"
    using g p0 p1 by blast
qed

text \<open>
  C3 as stated fails: for an unknown label and for the label of a node without child
  nodes \<open>get_counter_args\<close> returns the same value.
\<close>

theorem get_counter_args_indistinguishable_counterexample:
  "\<forall>h. \<exists>g. from_dataframes h [] [] [node_args ''Z.P1'' ''text'' [] [] []] [] [] [] = Inr g \<and>
         get_node_for_label g ''UNKNOWN'' = None \<and>
         get_node_for_label g ''Z.P1'' = Some 0 \<and> child_nodes (heap g 0) = [] \<and>
         get_counter_args g ''UNKNOWN'' = get_counter_args g ''Z.P1''"
proof
  fix h
  obtain g where g: "from_dataframes h [] [] [node_args ''Z.P1'' ''text'' [] [] []] [] [] [] = Inr g"
    by (simp add: from_dataframes_Inr)
  note e = built_eval [OF g refl]
  have i1: "get_node_for_label g ''UNKNOWN'' = None" by (simp add: e(2) ev_node upt_rec)
  have i2: "get_node_for_label g ''Z.P1'' = Some 0" by (simp add: e(2) ev_node upt_rec)
  have c0: "child_nodes (heap g 0) = []" by (simp add: e(8) ev_node ev_links upt_rec)
  have "get_counter_args g ''UNKNOWN'' = get_counter_args g ''Z.P1''"
    by (simp add: get_counter_args_def i1 i2 c0)
  with g i1 i2 c0
  show "\<exists>g. from_dataframes h [] [] [node_args ''Z.P1'' ''text'' [] [] []] [] [] [] = Inr g \<and>
         get_node_for_label g ''UNKNOWN'' = None \<and>
         get_node_for_label g ''Z.P1'' = Some 0 \<and> child_nodes (heap g 0) = [] \<and>
         get_counter_args g ''UNKNOWN'' = get_counter_args g ''Z.P1''"
    by auto
qed

text \<open>
  C3, amended.  \<open>get_counter_args\<close> returns \<open>None\<close> both for a label that resolves to no
  node and for a label that resolves to a node without child nodes: the two results
  are equal, and only \<open>get_node_for_label\<close> tells the two cases apart.
\<close>

theorem get_counter_args_same_result:
  "get_node_for_label g l = None \<Longrightarrow> get_node_for_label g l' = Some a \<Longrightarrow> child_nodes (heap g a) = [] \<Longrightarrow>
     get_counter_args g l = None \<and> get_counter_args g l' = None \<and>
     get_node_for_label g l \<noteq> get_node_for_label g l'"
  by (simp add: get_counter_args_def)

theorem get_counter_args_same_result_witness:
  "\<forall>h. \<exists>g. from_dataframes h [] [] [node_args ''Z.P1'' ''one'' [] [] [],
                                    node_args ''Z.K1'' ''two'' [''Z.P1''] [] []] [] [] [] = Inr g \<and>
         get_counter_args g ''NZ.P7'' = None \<and> get_counter_args g ''Z.K1'' = None \<and>
         get_node_for_label g ''NZ.P7'' = None \<and> get_node_for_label g ''Z.K1'' = Some 1"
proof
  fix h
  obtain g where g: "from_dataframes h [] [] [node_args ''Z.P1'' ''one'' [] [] [],
                                    node_args ''Z.K1'' ''two'' [''Z.P1''] [] []] [] [] [] = Inr g"
    by (simp add: from_dataframes_Inr)
  note e = built_eval [OF g refl]
  have i1: "get_node_for_label g ''NZ.P7'' = None" by (simp add: e(2) ev_node upt_rec)
  have i2: "get_node_for_label g ''Z.K1'' = Some 1" by (simp add: e(2) ev_node upt_rec)
  have c1: "child_nodes (heap g 1) = []" by (simp add: e(8) ev_node ev_links upt_rec)
  from get_counter_args_same_result [OF i1 i2 c1] g i1 i2
  show "\<exists>g. from_dataframes h [] [] [node_args ''Z.P1'' ''one'' [] [] [],
                                    node_args ''Z.K1'' ''two'' [''Z.P1''] [] []] [] [] [] = Inr g \<and>
         get_counter_args g ''NZ.P7'' = None \<and> get_counter_args g ''Z.K1'' = None \<and>
         get_node_for_label g ''NZ.P7'' = None \<and> get_node_for_label g ''Z.K1'' = Some 1"
    by auto
qed

text \<open>
  C4.  A node whose three raw sets all contain its own label: the constructor removes
  the label from \<open>parents\<close> and \<open>groups\<close> but not from \<open>similars\<close>, and after the
  construction of the graph the node is a member of its own \<open>similar_nodes\<close>.
\<close>

theorem similar_nodes_self_reference:
  "\<forall>h. \<exists>g. from_dataframes h [] [] [node_args ''Z.P1'' ''text'' [''Z.P1''] [''Z.P1''] [''Z.P1'']] [] [] [] = Inr g \<and>
         parents (heap g 0) = [] \<and> groups (heap g 0) = [] \<and> similars (heap g 0) = [''Z.P1''] \<and>
         parent_nodes (heap g 0) = [] \<and> child_nodes (heap g 0) = [] \<and>
         group_nodes (heap g 0) = [] \<and> group_member_nodes (heap g 0) = [] \<and>
         similar_nodes (heap g 0) = [0] \<and>
         set_contains (node_key h (heap g)) (similar_nodes (heap g 0)) 0"
proof
  fix h
  obtain g where g: "from_dataframes h [] [] [node_args ''Z.P1'' ''text'' [''Z.P1''] [''Z.P1''] [''Z.P1'']] [] [] [] = Inr g"
    by (simp add: from_dataframes_Inr)
  note e = built_eval [OF g refl]
  have raw: "parents (heap g 0) = []" "groups (heap g 0) = []" "similars (heap g 0) = [''Z.P1'']"
    by (simp_all add: e(4,5,6) ev_node)
  have links: "parent_nodes (heap g 0) = []" "child_nodes (heap g 0) = []"
    "group_nodes (heap g 0) = []" "group_member_nodes (heap g 0) = []"
    by (simp_all add: e(7,8,9,10) ev_node ev_links upt_rec)
  have sim: "similar_nodes (heap g 0) = [0]"
    by (simp add: e(11) ev_node ev_links upt_rec)
  have "set_contains (node_key h (heap g)) (similar_nodes (heap g 0)) 0"
    by (simp add: sim set_contains_def)
  with g raw links sim
  show "\<exists>g. from_dataframes h [] [] [node_args ''Z.P1'' ''text'' [''Z.P1''] [''Z.P1''] [''Z.P1'']] [] [] [] = Inr g \<and>
         parents (heap g 0) = [] \<and> groups (heap g 0) = [] \<and> similars (heap g 0) = [''Z.P1''] \<and>
         parent_nodes (heap g 0) = [] \<and> child_nodes (heap g 0) = [] \<and>
         group_nodes (heap g 0) = [] \<and> group_member_nodes (heap g 0) = [] \<and>
         similar_nodes (heap g 0) = [0] \<and>
         set_contains (node_key h (heap g)) (similar_nodes (heap g 0)) 0"
    by blast
qed

text \<open>
  C5 as stated fails where two nodes share a label.  Below nodes 0 and 1 are questions
  of one label, node 2 is an FAQ node without parents and node 3 an answer of the same
  label as node 2.  Node 0 has no parent labels and the parents set of node 3 is
  exactly its label, but the only pair is (1, 3): read by object, the pair (0, 3) is
  missing; read by equality of nodes, node 2 has no parents and still equals the
  answer of a pair.
\<close>

theorem faq_pairing_duplicate_counterexample:
  "\<forall>h. \<exists>g. from_dataframes h [] [] [] [] []
                [node_args ''FAQ.Q1'' ''question'' [] [] [],
                 node_args ''FAQ.Q1'' ''question again'' [] [] [],
                 node_args ''FAQ.A1'' ''note'' [] [] [],
                 node_args ''FAQ.A1'' ''answer'' [''FAQ.Q1''] [] []] = Inr g \<and>
         faq_nodes g = [0, 1, 2, 3] \<and>
         parents (heap g 0) = [] \<and> parents (heap g 3) = [label (heap g 0)] \<and>
         faq_node_pairs g = [(1, 3)] \<and> (0, 3) \<notin> set (faq_node_pairs g) \<and>
         parents (heap g 2) = [] \<and> GraphNode_eq h (heap g 2) (heap g 3)"
proof
  fix h
  obtain g where g: "from_dataframes h [] [] [] [] []
                [node_args ''FAQ.Q1'' ''question'' [] [] [],
                 node_args ''FAQ.Q1'' ''question again'' [] [] [],
                 node_args ''FAQ.A1'' ''note'' [] [] [],
                 node_args ''FAQ.A1'' ''answer'' [''FAQ.Q1''] [] []] = Inr g"
    by (simp add: from_dataframes_Inr)
  note e = built_eval [OF g refl]
  have faq: "faq_nodes g = [0, Suc 0, 2, 3]"
    by (simp add: built_faq_nodes [OF g] upt_rec)
  have ps: "parents (heap g 0) = []" "parents (heap g (Suc 0)) = []" "parents (heap g 2) = []"
    "parents (heap g 3) = [''FAQ.Q1'']"
    by (simp_all add: e(4) ev_node)
  have lb: "label (heap g 0) = ''FAQ.Q1''" "label (heap g 2) = ''FAQ.A1''" "label (heap g 3) = ''FAQ.A1''"
    by (simp_all add: e(3) ev_node)
  have p3: "parent_nodes (heap g 3) = [Suc 0]"
    by (simp add: e(7) ev_node ev_links upt_rec)
  have pairs: "faq_node_pairs g = [(Suc 0, 3)]"
    by (simp add: faq_node_pairs_def faq_answer_nodes_def has_parent_labels_def faq ps p3)
  have eq: "GraphNode_eq h (heap g 2) (heap g 3)"
    by (simp add: GraphNode_eq_def GraphNode_hash_def lb)
  from g faq ps lb pairs eq
  show "\<exists>g. from_dataframes h [] [] [] [] []
                [node_args ''FAQ.Q1'' ''question'' [] [] [],
                 node_args ''FAQ.Q1'' ''question again'' [] [] [],
                 node_args ''FAQ.A1'' ''note'' [] [] [],
                 node_args ''FAQ.A1'' ''answer'' [''FAQ.Q1''] [] []] = Inr g \<and>
         faq_nodes g = [0, 1, 2, 3] \<and>
         parents (heap g 0) = [] \<and> parents (heap g 3) = [label (heap g 0)] \<and>
         faq_node_pairs g = [(1, 3)] \<and> (0, 3) \<notin> set (faq_node_pairs g) \<and>
         parents (heap g 2) = [] \<and> GraphNode_eq h (heap g 2) (heap g 3)"
    by auto
qed

text \<open>
  C5, amended.  On every built graph, for FAQ nodes \<open>Q\<close> without parent labels and \<open>R\<close>
  whose parents set is exactly the label of \<open>Q\<close>: \<open>faq_node_pairs\<close> has exactly one pair
  with \<open>R\<close> as answer, in the order (question, answer), and its question is the node
  the label of \<open>Q\<close> resolves to, a node of the same label; it is \<open>Q\<close> itself when the
  label resolves to \<open>Q\<close> (no later node carries it).  For an FAQ node without parent
  labels no pair has that node as answer.
\<close>

theorem faq_pairing:
  assumes "from_dataframes h i t z gs n f = Inr g"
  shows "(\<forall>Q \<in> set (faq_nodes g). \<forall>R \<in> set (faq_nodes g).
            parents (heap g Q) = [] \<and> parents (heap g R) = [label (heap g Q)] \<longrightarrow>
              (\<exists>q. get_node_for_label g (label (heap g Q)) = Some q \<and>
                    label (heap g q) = label (heap g Q) \<and>
                    filter (\<lambda>qr. snd qr = R) (faq_node_pairs g) = [(q, R)]) \<and>
              (get_node_for_label g (label (heap g Q)) = Some Q \<longrightarrow>
                 filter (\<lambda>qr. snd qr = R) (faq_node_pairs g) = [(Q, R)])) \<and>
         (\<forall>R \<in> set (faq_nodes g). parents (heap g R) = [] \<longrightarrow> (\<forall>q. (q, R) \<notin> set (faq_node_pairs g)))"
proof (intro conjI ballI impI allI)
  fix R q
  assume "R \<in> set (faq_nodes g)" "parents (heap g R) = []"
  then show "(q, R) \<notin> set (faq_node_pairs g)"
    by (auto dest: faq_node_pairs_answer simp: has_parent_labels_def)
next
  fix Q R
  assume Q: "Q \<in> set (faq_nodes g)" and R: "R \<in> set (faq_nodes g)"
     and ps: "parents (heap g Q) = [] \<and> parents (heap g R) = [label (heap g Q)]"
  from Q R built_faq_subset [OF assms] have Qa: "Q \<in> set (all_nodes g)" and Ra: "R \<in> set (all_nodes g)"
    by auto
  from Qa have "get_node_for_label g (label (heap g Q)) \<noteq> None"
    by (auto simp: built_index_None [OF assms])
  then obtain q where q: "get_node_for_label g (label (heap g Q)) = Some q" by auto
  then have lq: "label (heap g q) = label (heap g Q)"
    by (simp add: built_index [OF assms])
  have pn: "parent_nodes (heap g R) = [q]"
    using ps q
    by (simp add: built_parent_nodes [OF assms Ra] resolve_def
          set_update_def set_add_def set_contains_def)
  have d: "distinct (faq_nodes g)"
    by (simp add: built_faq_nodes [OF assms])
  have pairs: "filter (\<lambda>qr. snd qr = R) (faq_node_pairs g) = [(q, R)]"
    unfolding faq_node_pairs_def faq_answer_nodes_def pairs_for_answer [OF d]
    using R ps pn by (simp add: has_parent_labels_def)
  from q lq pairs
  show "\<exists>q. get_node_for_label g (label (heap g Q)) = Some q \<and>
             label (heap g q) = label (heap g Q) \<and>
             filter (\<lambda>qr. snd qr = R) (faq_node_pairs g) = [(q, R)]"
    by blast
  show "filter (\<lambda>qr. snd qr = R) (faq_node_pairs g) = [(Q, R)]"
    if "get_node_for_label g (label (heap g Q)) = Some Q"
    using that q pairs by simp
qed

theorem faq_pairing_witness:
  "\<forall>h. \<exists>g. from_dataframes h [] [] [] [] []
                [node_args ''FAQ.Q1'' ''question'' [] [] [],
                 node_args ''FAQ.A1'' ''answer'' [''FAQ.Q1''] [] [],
                 node_args ''FAQ.A2'' ''note'' [] [] []] = Inr g \<and>
         faq_nodes g = [0, 1, 2] \<and>
         filter (\<lambda>qr. snd qr = 1) (faq_node_pairs g) = [(0, 1)] \<and>
         (\<forall>q. (q, 2) \<notin> set (faq_node_pairs g))"
proof
  fix h
  obtain g where g: "from_dataframes h [] [] [] [] []
                [node_args ''FAQ.Q1'' ''question'' [] [] [],
                 node_args ''FAQ.A1'' ''answer'' [''FAQ.Q1''] [] [],
                 node_args ''FAQ.A2'' ''note'' [] [] []] = Inr g"
    by (simp add: from_dataframes_Inr)
  note e = built_eval [OF g refl]
  have faq: "faq_nodes g = [0, Suc 0, 2]"
    by (simp add: built_faq_nodes [OF g] upt_rec)
  have ps: "parents (heap g 0) = []" "parents (heap g (Suc 0)) = [''FAQ.Q1'']" "parents (heap g 2) = []"
    by (simp_all add: e(4) ev_node)
  have lb: "label (heap g 0) = ''FAQ.Q1''"
    by (simp add: e(3) ev_node)
  have idx: "get_node_for_label g ''FAQ.Q1'' = Some 0"
    by (simp add: e(2) ev_node upt_rec)
  from faq_pairing [OF g]
  have one: "\<And>Q R. Q \<in> set (faq_nodes g) \<Longrightarrow> R \<in> set (faq_nodes g) \<Longrightarrow>
            parents (heap g Q) = [] \<and> parents (heap g R) = [label (heap g Q)] \<Longrightarrow>
            get_node_for_label g (label (heap g Q)) = Some Q \<Longrightarrow>
              filter (\<lambda>qr. snd qr = R) (faq_node_pairs g) = [(Q, R)]"
    and none: "\<And>R q. R \<in> set (faq_nodes g) \<Longrightarrow> parents (heap g R) = [] \<Longrightarrow> (q, R) \<notin> set (faq_node_pairs g)"
    by blast+
  have "filter (\<lambda>qr. snd qr = Suc 0) (faq_node_pairs g) = [(0, Suc 0)]"
    by (rule one) (simp_all add: faq ps lb idx)
  moreover have "(q, 2) \<notin> set (faq_node_pairs g)" for q
    by (rule none) (simp_all add: faq ps)
  ultimately
  show "\<exists>g. from_dataframes h [] [] [] [] []
                [node_args ''FAQ.Q1'' ''question'' [] [] [],
                 node_args ''FAQ.A1'' ''answer'' [''FAQ.Q1''] [] [],
                 node_args ''FAQ.A2'' ''note'' [] [] []] = Inr g \<and>
         faq_nodes g = [0, 1, 2] \<and>
         filter (\<lambda>qr. snd qr = 1) (faq_node_pairs g) = [(0, 1)] \<and>
         (\<forall>q. (q, 2) \<notin> set (faq_node_pairs g))"
    using g faq by auto
qed

text \<open>
  C6 as stated fails where two nodes share a label: the first node below has no child
  nodes, yet \<open>get_counter_args\<close> of its label returns the child set of the second node,
  to which the label resolves.
\<close>

theorem get_counter_args_duplicate_counterexample:
  "\<forall>h. \<exists>g. from_dataframes h [] [] [node_args ''Z.P1'' ''one'' [] [] [], node_args ''Z.P1'' ''two'' [] [] [],
                                    node_args ''Z.K1'' ''three'' [''Z.P1''] [] []] [] [] [] = Inr g \<and>
         0 \<in> set (all_nodes g) \<and> label (heap g 0) = ''Z.P1'' \<and> child_nodes (heap g 0) = [] \<and>
         get_counter_args g ''Z.P1'' = Some [2]"
proof
  fix h
  obtain g where g: "from_dataframes h [] [] [node_args ''Z.P1'' ''one'' [] [] [], node_args ''Z.P1'' ''two'' [] [] [],
                                    node_args ''Z.K1'' ''three'' [''Z.P1''] [] []] [] [] [] = Inr g"
    by (simp add: from_dataframes_Inr)
  note e = built_eval [OF g refl]
  have all: "all_nodes g = [0, 1, 2]" by (simp add: e(1) upt_rec)
  have l0: "label (heap g 0) = ''Z.P1''" by (simp add: e(3) ev_node)
  have idx: "get_node_for_label g ''Z.P1'' = Some 1" by (simp add: e(2) ev_node upt_rec)
  have c0: "child_nodes (heap g 0) = []" by (simp add: e(8) ev_node ev_links upt_rec)
  have c1: "child_nodes (heap g 1) = [2]" by (simp add: e(8) ev_node ev_links upt_rec)
  have "get_counter_args g ''Z.P1'' = Some [2]"
    using c1 by (simp add: get_counter_args_def idx)
  with g all l0 c0
  show "\<exists>g. from_dataframes h [] [] [node_args ''Z.P1'' ''one'' [] [] [], node_args ''Z.P1'' ''two'' [] [] [],
                                    node_args ''Z.K1'' ''three'' [''Z.P1''] [] []] [] [] [] = Inr g \<and>
         0 \<in> set (all_nodes g) \<and> label (heap g 0) = ''Z.P1'' \<and> child_nodes (heap g 0) = [] \<and>
         get_counter_args g ''Z.P1'' = Some [2]"
    by auto
qed

text \<open>
  C6, amended.  On every built graph, \<open>get_counter_args\<close> of a label that no node
  carries gives \<open>None\<close>; of the label of a node without child nodes it gives \<open>None\<close>
  provided the label resolves to that node (it does when no later node carries the
  same label); and of the label of a node with child nodes it gives exactly the
  \<open>child_nodes\<close> of that node.
\<close>

theorem get_counter_args_cases:
  assumes "from_dataframes h i t z gs n f = Inr g"
  shows "(\<forall>l. (\<forall>a \<in> set (all_nodes g). label (heap g a) \<noteq> l) \<longrightarrow> get_counter_args g l = None) \<and>
         (\<forall>a \<in> set (all_nodes g).
            get_node_for_label g (label (heap g a)) = Some a \<and> child_nodes (heap g a) = []
              \<longrightarrow> get_counter_args g (label (heap g a)) = None) \<and>
         (\<forall>a \<in> set (all_nodes g).
            child_nodes (heap g a) \<noteq> []
              \<longrightarrow> get_counter_args g (label (heap g a)) = Some (child_nodes (heap g a)))"
proof (intro conjI allI ballI impI)
  fix l
  assume "\<forall>a \<in> set (all_nodes g). label (heap g a) \<noteq> l"
  then have "get_node_for_label g l = None"
    by (simp add: built_index_None [OF assms])
  then show "get_counter_args g l = None"
    by (simp add: get_counter_args_def)
next
  fix a
  assume "get_node_for_label g (label (heap g a)) = Some a \<and> child_nodes (heap g a) = []"
  then show "get_counter_args g (label (heap g a)) = None"
    by (simp add: get_counter_args_def)
next
  fix a
  assume a: "a \<in> set (all_nodes g)" and ne: "child_nodes (heap g a) \<noteq> []"
  then obtain c where "c \<in> set (child_nodes (heap g a))"
    by (cases "child_nodes (heap g a)") auto
  then have "a \<in> set (resolve (get_node_for_label g) (parents (heap g c)))"
    by (rule built_child_stored(2) [OF assms a])
  then have "get_node_for_label g (label (heap g a)) = Some a"
    by (rule built_resolve(3) [OF assms])
  with ne show "get_counter_args g (label (heap g a)) = Some (child_nodes (heap g a))"
    by (simp add: get_counter_args_def)
qed

theorem get_counter_args_cases_witness:
  "\<forall>h. \<exists>g. from_dataframes h [] [] [node_args ''Z.P1'' ''one'' [] [] [],
                                    node_args ''Z.K1'' ''two'' [''Z.P1''] [] []] [] [] [] = Inr g \<and>
         get_counter_args g ''UNKNOWN'' = None \<and>
         child_nodes (heap g 1) = [] \<and> get_counter_args g ''Z.K1'' = None \<and>
         child_nodes (heap g 0) = [1] \<and> get_counter_args g ''Z.P1'' = Some [1]"
proof
  fix h
  obtain g where g: "from_dataframes h [] [] [node_args ''Z.P1'' ''one'' [] [] [],
                                    node_args ''Z.K1'' ''two'' [''Z.P1''] [] []] [] [] [] = Inr g"
    by (simp add: from_dataframes_Inr)
  note e = built_eval [OF g refl]
  note th = get_counter_args_cases [OF g]
  have all: "all_nodes g = [0, 1]" by (simp add: e(1) upt_rec)
  have l0: "label (heap g 0) = ''Z.P1''" and l1: "label (heap g (Suc 0)) = ''Z.K1''"
    by (simp_all add: e(3) ev_node)
  have idx: "get_node_for_label g ''Z.K1'' = Some (Suc 0)" by (simp add: e(2) ev_node upt_rec)
  have c0: "child_nodes (heap g 0) = [Suc 0]" by (simp add: e(8) ev_node ev_links upt_rec)
  have c1: "child_nodes (heap g (Suc 0)) = []" by (simp add: e(8) ev_node ev_links upt_rec)
  from th have "get_counter_args g ''UNKNOWN'' = None"
    by (simp add: all l0 l1)
  moreover from th have "get_counter_args g ''Z.K1'' = None"
    by (simp add: all l0 l1 c0 c1 idx)
  moreover from th have "get_counter_args g ''Z.P1'' = Some [Suc 0]"
    by (simp add: all l0 l1 c0 c1 idx)
  ultimately
  show "\<exists>g. from_dataframes h [] [] [node_args ''Z.P1'' ''one'' [] [] [],
                                    node_args ''Z.K1'' ''two'' [''Z.P1''] [] []] [] [] [] = Inr g \<and>
         get_counter_args g ''UNKNOWN'' = None \<and>
         child_nodes (heap g 1) = [] \<and> get_counter_args g ''Z.K1'' = None \<and>
         child_nodes (heap g 0) = [1] \<and> get_counter_args g ''Z.P1'' = Some [1]"
    using g c0 c1 l0 l1 by auto
qed

text \<open>
  C8.  Construction never raises, whichever labels resolve; and a node all of whose
  parent labels resolve to no node has the empty \<open>parent_nodes\<close> afterwards (the same
  for its group labels and \<open>group_nodes\<close>).
\<close>

theorem unresolved_labels_tolerated:
  "\<exists>g. from_dataframes h i t z gs n f = Inr g \<and>
       (\<forall>a \<in> set (all_nodes g).
          ((\<forall>l \<in> set (parents (heap g a)). get_node_for_label g l = None)
             \<longrightarrow> parent_nodes (heap g a) = []) \<and>
          ((\<forall>l \<in> set (groups (heap g a)). get_node_for_label g l = None)
             \<longrightarrow> group_nodes (heap g a) = []))"
proof -
  obtain g where g: "from_dataframes h i t z gs n f = Inr g"
    by (simp add: from_dataframes_Inr)
  have "parent_nodes (heap g a) = []"
    if "a \<in> set (all_nodes g)" "\<forall>l \<in> set (parents (heap g a)). get_node_for_label g l = None" for a
    using that by (simp add: built_parent_nodes [OF g] resolve_Nil set_update_Nil)
  moreover have "group_nodes (heap g a) = []"
    if "a \<in> set (all_nodes g)" "\<forall>l \<in> set (groups (heap g a)). get_node_for_label g l = None" for a
    using that by (simp add: built_group_nodes [OF g] resolve_Nil set_update_Nil)
  ultimately show ?thesis using g by blast
qed

theorem unresolved_labels_tolerated_witness:
  "\<forall>h. \<exists>g. from_dataframes h [] [] [node_args ''Z.P1'' ''text'' [''NO.SUCH.LABEL''] [] []] [] [] [] = Inr g \<and>
         parents (heap g 0) = [''NO.SUCH.LABEL''] \<and>
         get_node_for_label g ''NO.SUCH.LABEL'' = None \<and>
         parent_nodes (heap g 0) = []"
proof
  fix h
  from unresolved_labels_tolerated [of h "[]" "[]" "[node_args ''Z.P1'' ''text'' [''NO.SUCH.LABEL''] [] []]" "[]" "[]" "[]"]
  obtain g where g: "from_dataframes h [] [] [node_args ''Z.P1'' ''text'' [''NO.SUCH.LABEL''] [] []] [] [] [] = Inr g"
    and p: "\<And>a. a \<in> set (all_nodes g) \<Longrightarrow> (\<forall>l \<in> set (parents (heap g a)). get_node_for_label g l = None)
              \<Longrightarrow> parent_nodes (heap g a) = []"
    by blast
  have all: "all_nodes g = [0]" by (simp add: built_all_nodes [OF g])
  have ps: "parents (heap g 0) = [''NO.SUCH.LABEL'']"
    by (simp add: built_node [OF g] all ev_node)
  have lb: "label (heap g 0) = ''Z.P1''"
    by (simp add: built_node [OF g] all ev_node)
  have none: "get_node_for_label g ''NO.SUCH.LABEL'' = None"
    by (simp add: built_index_None [OF g] all lb)
  have "parent_nodes (heap g 0) = []"
    by (rule p) (simp_all add: all ps none)
  with g ps none
  show "\<exists>g. from_dataframes h [] [] [node_args ''Z.P1'' ''text'' [''NO.SUCH.LABEL''] [] []] [] [] [] = Inr g \<and>
         parents (heap g 0) = [''NO.SUCH.LABEL''] \<and>
         get_node_for_label g ''NO.SUCH.LABEL'' = None \<and>
         parent_nodes (heap g 0) = []"
    by blast
qed

text \<open>
  C9.  Whatever labels the rows carry (two rows of one label included), construction
  returns a graph; every partition still holds, position by position, the node built
  from its row (the link sets apart); the addresses of \<open>all_nodes\<close> run in the order of
  the concatenation; and the index maps a label to the last node of \<open>all_nodes\<close> that
  carries it, which is what \<open>get_node_for_label\<close> returns.
\<close>

theorem duplicate_labels_last_wins:
  "\<exists>g. from_dataframes h i t z gs n f = Inr g \<and>
       map (\<lambda>a. no_links (heap g a)) (introduction_nodes g) = map new_GraphNode i \<and>
       map (\<lambda>a. no_links (heap g a)) (transition_nodes g) = map new_GraphNode t \<and>
       map (\<lambda>a. no_links (heap g a)) (z_arguments_nodes g) = map new_GraphNode z \<and>
       map (\<lambda>a. no_links (heap g a)) (graph_group_nodes g) = map new_GraphNode gs \<and>
       map (\<lambda>a. no_links (heap g a)) (nz_arguments_nodes g) = map new_GraphNode n \<and>
       map (\<lambda>a. no_links (heap g a)) (faq_nodes g) = map new_GraphNode f \<and>
       all_nodes g = [0..<length (i @ t @ z @ gs @ n @ f)] \<and>
       (\<forall>b \<in> set (all_nodes g).
          (\<forall>c \<in> set (all_nodes g). b < c \<longrightarrow> label (heap g c) \<noteq> label (heap g b)) \<longrightarrow>
          label_to_node g (label (heap g b)) = Some b \<and>
          get_node_for_label g (label (heap g b)) = Some b)"
proof -
  obtain g where g: "from_dataframes h i t z gs n f = Inr g"
    by (simp add: from_dataframes_Inr)
  have "label_to_node g (label (heap g b)) = Some b \<and> get_node_for_label g (label (heap g b)) = Some b"
    if "b \<in> set (all_nodes g)" "\<forall>c \<in> set (all_nodes g). b < c \<longrightarrow> label (heap g c) \<noteq> label (heap g b)" for b
  proof -
    from that have "get_node_for_label g (label (heap g b)) = Some b"
      by (simp add: built_index [OF g])
    then show ?thesis by (simp add: get_node_for_label_def)
  qed
  with g built_partitions [OF g] built_all_nodes [OF g] show ?thesis by blast
qed

theorem duplicate_labels_last_wins_witness:
  "\<forall>h. \<exists>g. from_dataframes h [node_args ''X'' ''first'' [] [] []] [] [] [] [] [node_args ''X'' ''second'' [] [] []] = Inr g \<and>
         introduction_nodes g = [0] \<and> faq_nodes g = [1] \<and>
         label (heap g 0) = ''X'' \<and> label (heap g 1) = ''X'' \<and>
         full_text (heap g 0) = ''first'' \<and> full_text (heap g 1) = ''second'' \<and>
         label_to_node g ''X'' = Some 1 \<and> get_node_for_label g ''X'' = Some 1"
proof
  fix h
  from duplicate_labels_last_wins [of h "[node_args ''X'' ''first'' [] [] []]" "[]" "[]" "[]" "[]" "[node_args ''X'' ''second'' [] [] []]"]
  obtain g where g: "from_dataframes h [node_args ''X'' ''first'' [] [] []] [] [] [] [] [node_args ''X'' ''second'' [] [] []] = Inr g"
    and i: "map (\<lambda>a. no_links (heap g a)) (introduction_nodes g) = map new_GraphNode [node_args ''X'' ''first'' [] [] []]"
    and f: "map (\<lambda>a. no_links (heap g a)) (faq_nodes g) = map new_GraphNode [node_args ''X'' ''second'' [] [] []]"
    and all: "all_nodes g = [0..<length ([node_args ''X'' ''first'' [] [] []] @ [] @ [] @ [] @ [] @ [node_args ''X'' ''second'' [] [] []])]"
    and idx: "\<And>b. b \<in> set (all_nodes g) \<Longrightarrow>
          (\<forall>c \<in> set (all_nodes g). b < c \<longrightarrow> label (heap g c) \<noteq> label (heap g b)) \<Longrightarrow>
          label_to_node g (label (heap g b)) = Some b \<and>
          get_node_for_label g (label (heap g b)) = Some b"
    by blast
  have all': "all_nodes g = [0, 1]" using all by (simp add: upt_rec)
  from i obtain a0 where i0: "introduction_nodes g = [a0]" by auto
  from f obtain a1 where f1: "faq_nodes g = [a1]" by auto
  from all' i0 f1 have parts: "introduction_nodes g = [0]" "faq_nodes g = [1]"
    by (auto simp: all_nodes_def append_eq_Cons_conv)
  from i parts have n0: "no_links (heap g 0) = new_GraphNode (node_args ''X'' ''first'' [] [] [])" by simp
  from f parts have n1: "no_links (heap g 1) = new_GraphNode (node_args ''X'' ''second'' [] [] [])" by simp
  have l0: "label (heap g 0) = ''X''" and t0: "full_text (heap g 0) = ''first''"
    using arg_cong [OF n0, of label] arg_cong [OF n0, of full_text] by (simp_all add: ev_node)
  have l1: "label (heap g 1) = ''X''" and t1: "full_text (heap g 1) = ''second''"
    using arg_cong [OF n1, of label] arg_cong [OF n1, of full_text] by (simp_all add: ev_node)
  have "label_to_node g (label (heap g 1)) = Some 1 \<and> get_node_for_label g (label (heap g 1)) = Some 1"
    by (rule idx) (simp_all add: all')
  with g parts l0 l1 t0 t1
  show "\<exists>g. from_dataframes h [node_args ''X'' ''first'' [] [] []] [] [] [] [] [node_args ''X'' ''second'' [] [] []] = Inr g \<and>
         introduction_nodes g = [0] \<and> faq_nodes g = [1] \<and>
         label (heap g 0) = ''X'' \<and> label (heap g 1) = ''X'' \<and>
         full_text (heap g 0) = ''first'' \<and> full_text (heap g 1) = ''second'' \<and>
         label_to_node g ''X'' = Some 1 \<and> get_node_for_label g ''X'' = Some 1"
    by auto
qed

section \<open>Further properties\<close>

text \<open>
  Self-reference removal.  On every built graph no node carries its own label in its
  \<open>parents\<close> or \<open>groups\<close>, and no node is stored in its own \<open>parent_nodes\<close>,
  \<open>child_nodes\<close>, \<open>group_nodes\<close> or \<open>group_member_nodes\<close>.
\<close>

theorem self_reference_removed:
  assumes "from_dataframes h i t z gs n f = Inr g"
  shows "\<forall>a \<in> set (all_nodes g).
           label (heap g a) \<notin> set (parents (heap g a)) \<and>
           label (heap g a) \<notin> set (groups (heap g a)) \<and>
           a \<notin> set (parent_nodes (heap g a)) \<and> a \<notin> set (child_nodes (heap g a)) \<and>
           a \<notin> set (group_nodes (heap g a)) \<and> a \<notin> set (group_member_nodes (heap g a))"
  using built_no_self [OF assms] built_no_self_links [OF assms] by blast

theorem self_reference_removed_witness:
  "\<forall>h. \<exists>g. from_dataframes h [] [] [node_args ''Z.P1'' ''text'' [''Z.P1'', ''Z.P2''] [''Z.P1''] []] [] [] [] = Inr g \<and>
         label (heap g 0) = ''Z.P1'' \<and>
         ''Z.P1'' \<notin> set (parents (heap g 0)) \<and> ''Z.P1'' \<notin> set (groups (heap g 0)) \<and>
         0 \<notin> set (parent_nodes (heap g 0)) \<and> 0 \<notin> set (child_nodes (heap g 0)) \<and>
         0 \<notin> set (group_nodes (heap g 0)) \<and> 0 \<notin> set (group_member_nodes (heap g 0))"
proof
  fix h
  obtain g where g: "from_dataframes h [] [] [node_args ''Z.P1'' ''text'' [''Z.P1'', ''Z.P2''] [''Z.P1''] []] [] [] [] = Inr g"
    by (simp add: from_dataframes_Inr)
  note e = built_eval [OF g refl]
  have all: "all_nodes g = [0]" by (simp add: e(1))
  have lb: "label (heap g 0) = ''Z.P1''" by (simp add: e(3) ev_node)
  from self_reference_removed [OF g] all lb g
  show "\<exists>g. from_dataframes h [] [] [node_args ''Z.P1'' ''text'' [''Z.P1'', ''Z.P2''] [''Z.P1''] []] [] [] [] = Inr g \<and>
         label (heap g 0) = ''Z.P1'' \<and>
         ''Z.P1'' \<notin> set (parents (heap g 0)) \<and> ''Z.P1'' \<notin> set (groups (heap g 0)) \<and>
         0 \<notin> set (parent_nodes (heap g 0)) \<and> 0 \<notin> set (child_nodes (heap g 0)) \<and>
         0 \<notin> set (group_nodes (heap g 0)) \<and> 0 \<notin> set (group_member_nodes (heap g 0))"
    by auto
qed

text \<open>
  Ancestors on a chain.  Where the parent links form no cycle \<open>ancestor_nodes\<close> returns:
  on the chain of three nodes below the call on the first node gives its two ancestors
  as soon as three nested calls are allowed (two are not enough), the hashes of the
  two ancestor labels being different.
\<close>

theorem ancestor_nodes_chain:
  assumes "h ''Z.P2'' \<noteq> h ''Z.P3''"
  shows "\<exists>g. from_dataframes h [] [] [node_args ''Z.P1'' ''one'' [''Z.P2''] [] [],
                                    node_args ''Z.P2'' ''two'' [''Z.P3''] [] [],
                                    node_args ''Z.P3'' ''three'' [] [] []] [] [] [] = Inr g \<and>
             ancestor_nodes 2 h (heap g) 0 = Inl RecursionError \<and>
             ancestor_nodes 3 h (heap g) 0 = Inr [1, 2]"
proof -
  obtain g where g: "from_dataframes h [] [] [node_args ''Z.P1'' ''one'' [''Z.P2''] [] [],
                                    node_args ''Z.P2'' ''two'' [''Z.P3''] [] [],
                                    node_args ''Z.P3'' ''three'' [] [] []] [] [] [] = Inr g"
    by (simp add: from_dataframes_Inr)
  note e = built_eval [OF g refl]
  have p: "parent_nodes (heap g 0) = [Suc 0]" "parent_nodes (heap g (Suc 0)) = [2]"
    "parent_nodes (heap g 2) = []"
    by (simp_all add: e(7) ev_node ev_links upt_rec)
  have k: "node_key h (heap g) (Suc 0) = h ''Z.P2''" "node_key h (heap g) 2 = h ''Z.P3''"
    by (simp_all add: node_key_def GraphNode_hash_def e(3) ev_node)
  have a2: "ancestor_nodes (Suc 0) h (heap g) 2 = Inr []"
    by (simp add: p)
  have a1: "ancestor_nodes (Suc (Suc 0)) h (heap g) (Suc 0) = Inr [2]"
    by (simp add: p a2 set_contains_def set_update_def set_add_def)
  have a1': "ancestor_nodes (Suc 0) h (heap g) (Suc 0) = Inl RecursionError"
    by (simp add: p set_contains_def)
  have r2: "ancestor_nodes (Suc (Suc 0)) h (heap g) 0 = Inl RecursionError"
    by (simp add: p a1' set_contains_def)
  have r3: "ancestor_nodes (Suc (Suc (Suc 0))) h (heap g) 0 = Inr [Suc 0, 2]"
    using assms by (simp add: p a1 k set_contains_def set_update_def set_add_def)
  from g r2 r3 show ?thesis
    by (auto simp: numeral_2_eq_2 numeral_3_eq_3)
qed

theorem ancestor_nodes_chain_witness:
  "\<exists>g. from_dataframes (\<lambda>s. if s = ''Z.P2'' then 0 else 1) [] []
           [node_args ''Z.P1'' ''one'' [''Z.P2''] [] [],
            node_args ''Z.P2'' ''two'' [''Z.P3''] [] [],
            node_args ''Z.P3'' ''three'' [] [] []] [] [] [] = Inr g \<and>
       ancestor_nodes 2 (\<lambda>s. if s = ''Z.P2'' then 0 else 1) (heap g) 0 = Inl RecursionError \<and>
       ancestor_nodes 3 (\<lambda>s. if s = ''Z.P2'' then 0 else 1) (heap g) 0 = Inr [1, 2]"
  by (rule ancestor_nodes_chain) simp

text \<open>
  Super groups on a cycle.  The same holds for \<open>super_group_nodes\<close> on two group nodes
  that name each other as group: the evaluation ends in \<open>RecursionError\<close> whatever the
  number of nested calls allowed.
\<close>

theorem super_group_nodes_cycle_never_returns:
  "\<forall>h. \<exists>g. from_dataframes h [] [] [] [node_args ''G1'' ''one'' [] [''G2''] [],
                                       node_args ''G2'' ''two'' [] [''G1''] []] [] [] = Inr g \<and>
         group_nodes (heap g 0) = [1] \<and> group_nodes (heap g 1) = [0] \<and>
         (\<forall>d. super_group_nodes d h (heap g) 0 = Inl RecursionError \<and>
              super_group_nodes d h (heap g) 1 = Inl RecursionError)"
proof
  fix h
  obtain g where g: "from_dataframes h [] [] [] [node_args ''G1'' ''one'' [] [''G2''] [],
                                       node_args ''G2'' ''two'' [] [''G1''] []] [] [] = Inr g"
    by (simp add: from_dataframes_Inr)
  note e = built_eval [OF g refl]
  have p0: "group_nodes (heap g 0) = [1]" by (simp add: e(9) ev_node ev_links upt_rec)
  have p1: "group_nodes (heap g 1) = [0]" by (simp add: e(9) ev_node ev_links upt_rec)
  have "super_group_nodes d h (heap g) 0 = Inl RecursionError" for d
    using p0 p1 by (rule super_group_nodes_two_cycle)
  moreover have "super_group_nodes d h (heap g) 1 = Inl RecursionError" for d
    using p1 p0 by (rule super_group_nodes_two_cycle)
  ultimately
  show "\<exists>g. from_dataframes h [] [] [] [node_args ''G1'' ''one'' [] [''G2''] [],
                                       node_args ''G2'' ''two'' [] [''G1''] []] [] [] = Inr g \<and>
         group_nodes (heap g 0) = [1] \<and> group_nodes (heap g 1) = [0] \<and>
         (\<forall>d. super_group_nodes d h (heap g) 0 = Inl RecursionError \<and>
              super_group_nodes d h (heap g) 1 = Inl RecursionError)"
    using g p0 p1 by blast
qed

end
